theory Spec2Isabelle
  imports Complex_Main "HOL-Library.Word"
begin

section \<open>Navigation over a flow field: a model of \<open>module_control_unit/nav.py\<close>\<close>

text \<open>
  The class \<open>ModuleNavigation\<close> turns a grid of geographic coordinates and a co-indexed
  field of flow vectors into a directed graph (networkx), resolves positions to grid
  cells (a scipy k-d tree) and asks Dijkstra's algorithm for a path. The functions of the
  class are modelled one by one, under their own names. Exceptions are values of the type
  \<open>error\<close>; Python integers are \<open>int\<close>; float64 values are modelled as \<open>real\<close>:
  infinities and NaN are outside the model, and the arithmetic is exact except for the
  remainder \<open>%\<close>, whose rounding is modelled.
\<close>

subsection \<open>Errors\<close>

datatype error =
    StructError      \<comment> \<open>\<open>struct.error\<close>: a value that does not fit the format\<close>
  | IndexError       \<comment> \<open>an index out of range (list or ndarray)\<close>
  | ValueError       \<comment> \<open>numpy and scipy argument errors\<close>
  | NodeNotFound     \<comment> \<open>\<open>networkx.NodeNotFound\<close>\<close>
  | NetworkXNoPath   \<comment> \<open>\<open>networkx.NetworkXNoPath\<close>\<close>
  | KeyError         \<comment> \<open>a missing dictionary key\<close>
  | ZeroDivisionError
  | UnicodeEncodeError   \<comment> \<open>a character the output stream cannot encode\<close>

subsection \<open>Node identifiers: \<open>struct.pack('II', y, x)\<close>\<close>

type_synonym byte = "8 word"
type_synonym node_id = "byte list"

text \<open>
  The format \<open>I\<close> is an unsigned int of four bytes; \<open>struct.pack\<close> raises
  \<open>struct.error\<close> for an argument outside \<open>0 .. 2^32 - 1\<close>. The bytes are written in
  the machine's order; the model writes the least significant byte first.
\<close>

definition pack_I :: "int \<Rightarrow> error + byte list" where
  "pack_I v =
     (if 0 \<le> v \<and> v < 4294967296
      then Inr [word_of_int v, word_of_int (v div 256),
                word_of_int (v div 65536), word_of_int (v div 16777216)]
      else Inl StructError)"

definition unpack_I :: "byte list \<Rightarrow> int" where
  "unpack_I bs =
     uint (bs ! 0) + 256 * uint (bs ! 1) + 65536 * uint (bs ! 2) + 16777216 * uint (bs ! 3)"

definition encode_node_id :: "int \<times> int \<Rightarrow> error + node_id" where
  "encode_node_id idx_pos =
     (case idx_pos of (y, x) \<Rightarrow>
        (case pack_I y of
           Inl e \<Rightarrow> Inl e
         | Inr a \<Rightarrow> (case pack_I x of Inl e \<Rightarrow> Inl e | Inr b \<Rightarrow> Inr (a @ b))))"

definition decode_node_id :: "node_id \<Rightarrow> error + int \<times> int" where
  "decode_node_id raw =
     (if length raw = 8 then Inr (unpack_I (take 4 raw), unpack_I (drop 4 raw))
      else Inl StructError)"

subsection \<open>Grid adjacency\<close>

text \<open>The eight candidate positions of \<open>_get_neighbors\<close>, in the order of the source.\<close>

definition neighbors :: "int \<Rightarrow> int \<Rightarrow> (int \<times> int) list" where
  "neighbors ys xs =
     [(ys + 0, xs + 1), (ys + 1, xs + 1),
      (ys + 1, xs + 0), (ys + 1, xs - 1),
      (ys + 0, xs - 1), (ys - 1, xs - 1),
      (ys - 1, xs + 0), (ys - 1, xs + 1)]"

definition valid_neighbors :: "int \<Rightarrow> int \<Rightarrow> int \<times> int \<Rightarrow> (int \<times> int) list" where
  "valid_neighbors ys xs dims =
     (case dims of (y_dim, x_dim) \<Rightarrow>
        filter (\<lambda>(yd, xd). (0 \<le> yd \<and> yd < y_dim) \<and> (0 \<le> xd \<and> xd < x_dim))
          (neighbors ys xs))"


subsection \<open>Arrays\<close>

text \<open>
  A numpy array of shape \<open>(Y, X, 2)\<close>: its first two dimensions and the pair stored at
  each position. Indexing follows numpy: a negative index counts from the end, an index
  out of range raises \<open>IndexError\<close>.
\<close>

record 'a ndarray =
  shape0 :: nat
  shape1 :: nat
  cells :: "nat \<Rightarrow> nat \<Rightarrow> 'a"

definition norm_index :: "nat \<Rightarrow> int \<Rightarrow> error + nat" where
  "norm_index n i =
     (if 0 \<le> i \<and> i < int n then Inr (nat i)
      else if - int n \<le> i \<and> i < 0 then Inr (nat (i + int n))
      else Inl IndexError)"

definition getitem :: "'a ndarray \<Rightarrow> int \<Rightarrow> int \<Rightarrow> error + 'a" where
  "getitem arr y x =
     (case norm_index (shape0 arr) y of
        Inl e \<Rightarrow> Inl e
      | Inr i \<Rightarrow> (case norm_index (shape1 arr) x of
                   Inl e \<Rightarrow> Inl e
                 | Inr j \<Rightarrow> Inr (cells arr i j)))"

text \<open>A list comprehension whose elements may raise: the first exception wins.\<close>

fun collect :: "(error + 'a) list \<Rightarrow> error + 'a list" where
  "collect [] = Inr []"
| "collect (Inl e # rs) = Inl e"
| "collect (Inr v # rs) = (case collect rs of Inl e \<Rightarrow> Inl e | Inr vs \<Rightarrow> Inr (v # vs))"

subsection \<open>The graph: \<open>networkx.DiGraph\<close>\<close>

text \<open>
  The attributes of an edge are the dictionary \<open>{'weight': w, 'azimuth': theta}\<close>. The
  graph is networkx's successor dictionary: for every node, in the order of insertion, the
  dictionary of its successors with the attributes of the edge.
\<close>

record edge_attr =
  weight :: real
  azimuth :: real

type_synonym edge = "node_id \<times> node_id \<times> edge_attr"
type_synonym digraph = "(node_id \<times> (node_id \<times> edge_attr) list) list"

text \<open>\<open>d[k] = v\<close> on an insertion-ordered dictionary.\<close>

fun dict_set :: "'k \<Rightarrow> 'v \<Rightarrow> ('k \<times> 'v) list \<Rightarrow> ('k \<times> 'v) list" where
  "dict_set k v [] = [(k, v)]"
| "dict_set k v ((k', v') # d) = (if k = k' then (k, v) # d else (k', v') # dict_set k v d)"

definition add_node :: "node_id \<Rightarrow> digraph \<Rightarrow> digraph" where
  "add_node u g = (if u \<in> fst ` set g then g else g @ [(u, [])])"

definition successors :: "digraph \<Rightarrow> node_id \<Rightarrow> (node_id \<times> edge_attr) list" where
  "successors g u = (case map_of g u of None \<Rightarrow> [] | Some s \<Rightarrow> s)"

text \<open>
  One step of \<open>add_edges_from\<close>: both end points become nodes, then the edge's attribute
  dictionary is updated with the given one (which sets both of its keys).
\<close>

definition add_edge :: "edge \<Rightarrow> digraph \<Rightarrow> digraph" where
  "add_edge e g =
     (case e of (u, v, dd) \<Rightarrow>
        let g' = add_node v (add_node u g)
        in dict_set u (dict_set v dd (successors g' u)) g')"

definition add_edges_from :: "edge list \<Rightarrow> digraph \<Rightarrow> digraph" where
  "add_edges_from ebunch g = fold add_edge ebunch g"

definition nodes :: "digraph \<Rightarrow> node_id list" where
  "nodes g = map fst g"

definition edges :: "digraph \<Rightarrow> (node_id \<times> node_id) list" where
  "edges g = concat (map (\<lambda>(u, s). map (\<lambda>(v, dd). (u, v)) s) g)"

definition edge_data :: "digraph \<Rightarrow> node_id \<Rightarrow> node_id \<Rightarrow> edge_attr option" where
  "edge_data g u v = (case map_of g u of None \<Rightarrow> None | Some s \<Rightarrow> map_of s v)"

subsection \<open>Geodesy and the cost of an edge\<close>

text \<open>
  \<open>pyproj.Geod(ellps='WGS84').inv\<close> is a parameter of the model: a function from
  \<open>lon1 lat1 lon2 lat2\<close> to the forward azimuth, the back azimuth and the distance.
\<close>

type_synonym geod = "real \<Rightarrow> real \<Rightarrow> real \<Rightarrow> real \<Rightarrow> real \<times> real \<times> real"

text \<open>
  \<open>azimuth % 360\<close> is numpy's remainder of two float64 numbers: C's \<open>fmod\<close>, whose
  result is exact and has the sign of the dividend, and then, when that result is not
  zero and its sign is not the sign of the divisor, the float64 sum of the result and
  the divisor. The float64 sum is the exact sum rounded to the nearest number with a
  significand of 53 bits, a tie to the even one (\<open>round64\<close>; no sum of this program
  is beyond the largest float64). A divisor of zero is not used.
\<close>

definition rne :: "real \<Rightarrow> int" where
  "rne y = (let f = \<lfloor>y\<rfloor> in
            if y - of_int f < 1 / 2 then f
            else if 1 / 2 < y - of_int f then f + 1
            else if even f then f else f + 1)"

definition round64 :: "real \<Rightarrow> real" where
  "round64 x =
     (if x = 0 then 0
      else let e = max \<lfloor>log 2 \<bar>x\<bar>\<rfloor> (- 1022);
               ulp = 2 powi (e - 52)
           in of_int (rne (x / ulp)) * ulp)"

definition c_fmod :: "real \<Rightarrow> real \<Rightarrow> real" where
  "c_fmod a b = a - b * of_int (let q = a / b in if 0 \<le> q then \<lfloor>q\<rfloor> else \<lceil>q\<rceil>)"

definition np_remainder :: "real \<Rightarrow> real \<Rightarrow> real" where
  "np_remainder a b =
     (let m = c_fmod a b
      in if m \<noteq> 0 then (if (b < 0) \<noteq> (m < 0) then round64 (m + b) else m) else 0)"

definition radians :: "real \<Rightarrow> real" where
  "radians d = d * pi / 180"

text \<open>
  Lines 142 to 161 of \<open>_get_neighbors\<close> for one neighbour (numpy computes them for all
  neighbours at once): source coordinate, flow at the source, neighbour coordinate.
\<close>

definition edge_attributes ::
  "geod \<Rightarrow> real \<Rightarrow> real \<times> real \<Rightarrow> real \<times> real \<Rightarrow> real \<times> real \<Rightarrow> edge_attr" where
  "edge_attributes geod_inv timestep src_coord cur adj_coord =
     (case src_coord of (lat_src, lon_src) \<Rightarrow>
      case adj_coord of (lat_adj, lon_adj) \<Rightarrow>
      case cur of (current_u, current_v) \<Rightarrow>
      case geod_inv lon_src lat_src lon_adj lat_adj of (az, back_az, dist_adj) \<Rightarrow>
        let theta_adj = np_remainder az 360;
            velocity = dist_adj / timestep;
            u_adj = velocity * sin (radians theta_adj);
            v_adj = velocity * cos (radians theta_adj);
            u = u_adj - current_u;
            v = v_adj - current_v;
            w_adj = sqrt (u\<^sup>2 + v\<^sup>2)
        in \<lparr>weight = w_adj, azimuth = theta_adj\<rparr>)"

subsection \<open>The engine\<close>

record engine =
  latlons :: "(real \<times> real) ndarray"
  currents :: "(real \<times> real) ndarray"
  timestep :: real
  verbose :: bool
  nav_graph :: digraph
  kdtree :: "(real \<times> real) list"

text \<open>
  \<open>_get_neighbors\<close>. With no valid neighbour \<open>coords_adj\<close> is an array of shape
  \<open>(0,)\<close> and \<open>coords_adj[::,0]\<close> raises \<open>IndexError\<close>. The division by the
  timestep raises nothing, whatever the timestep is.
\<close>

definition get_neighbors ::
  "geod \<Rightarrow> engine \<Rightarrow> int \<Rightarrow> int \<Rightarrow> int \<times> int \<Rightarrow> error + edge list" where
  "get_neighbors geod_inv self ys xs dims =
     (case encode_node_id (ys, xs) of Inl e \<Rightarrow> Inl e | Inr src \<Rightarrow>
     (case getitem (latlons self) ys xs of Inl e \<Rightarrow> Inl e | Inr src_coord \<Rightarrow>
     (case collect (map (\<lambda>(yd, xd). getitem (latlons self) yd xd) (valid_neighbors ys xs dims)) of
        Inl e \<Rightarrow> Inl e
      | Inr coords_adj \<Rightarrow>
          if coords_adj = [] then Inl IndexError
          else
            (case getitem (currents self) ys xs of Inl e \<Rightarrow> Inl e | Inr cur \<Rightarrow>
            (case collect (map encode_node_id (valid_neighbors ys xs dims)) of
               Inl e \<Rightarrow> Inl e
             | Inr dest_ids \<Rightarrow>
                 Inr (map (\<lambda>(dest, adj_coord).
                            (src, dest,
                             edge_attributes geod_inv (timestep self) src_coord cur adj_coord))
                        (zip dest_ids coords_adj)))))))"

subsection \<open>The progress bar\<close>

text \<open>
  \<open>print\<close> writes to the standard output of the process, which is a parameter of the
  model: \<open>stdout_write s\<close> is the exception that writing the text \<open>s\<close> raises, if it
  raises one (a stream whose encoding has no code for a character of \<open>s\<close> raises
  \<open>UnicodeEncodeError\<close>). \<open>print(text, end='\r')\<close> writes the text and then the end;
  \<open>print()\<close> writes a line feed. A string is its bytes in UTF-8, so the default fill
  character U+2588 is three bytes. The result of \<open>print_progress_bar\<close> is what it wrote.
\<close>

fun str_nat :: "nat \<Rightarrow> string" where
  "str_nat n = (if n < 10 then [char_of (48 + n)] else str_nat (n div 10) @ [char_of (48 + n mod 10)])"

definition str_int :: "int \<Rightarrow> string" where
  "str_int i = (if i < 0 then CHR ''-'' # str_nat (nat (- i)) else str_nat (nat i))"

definition fill_default :: string where
  "fill_default = [CHR 0xE2, CHR 0x96, CHR 0x88]"

definition progress_line :: "int \<Rightarrow> int \<Rightarrow> string" where
  "progress_line iteration total_n =
     (let prefix = ''Transforming Map: '';
          filled_length = (50 * iteration) div total_n;
          bar = concat (replicate (nat filled_length) fill_default)
                @ replicate (nat (50 - filled_length)) CHR ''-''
      in [CHR 0x0D] @ '' '' @ prefix @ '' |'' @ bar @ ''| '' @ str_int iteration
         @ '' of '' @ str_int total_n @ '' nodes'')"

definition print_progress_bar :: "(string \<Rightarrow> error option) \<Rightarrow> int \<Rightarrow> int \<Rightarrow> error + string" where
  "print_progress_bar stdout_write iteration total_n =
     (if total_n = 0 then Inl ZeroDivisionError
      else
        (case stdout_write (progress_line iteration total_n) of
           Some e \<Rightarrow> Inl e
         | None \<Rightarrow>
             (case stdout_write [CHR 0x0D] of
                Some e \<Rightarrow> Inl e
              | None \<Rightarrow>
                  if iteration = total_n
                  then (case stdout_write [CHR 0x0A] of
                          Some e \<Rightarrow> Inl e
                        | None \<Rightarrow> Inr (progress_line iteration total_n @ [CHR 0x0D, CHR 0x0A]))
                  else Inr (progress_line iteration total_n @ [CHR 0x0D]))))"

subsection \<open>Building the graph: \<open>_transform_map\<close>\<close>

text \<open>The positions visited by the two nested loops, in their order.\<close>

definition grid_cells :: "nat \<Rightarrow> nat \<Rightarrow> (int \<times> int) list" where
  "grid_cells y_dim x_dim =
     concat (map (\<lambda>y. map (\<lambda>x. (int y, int x)) [0..<x_dim]) [0..<y_dim])"

text \<open>
  The body of the loops over the remaining positions. The state is the counter \<open>idx\<close>,
  what was printed, and the graph; the result is the output and the graph or the
  exception that ended the loop.
\<close>

fun transform_cells ::
  "(string \<Rightarrow> error option) \<Rightarrow> geod \<Rightarrow> engine \<Rightarrow> int \<times> int \<Rightarrow> (int \<times> int) list
     \<Rightarrow> int \<Rightarrow> string \<Rightarrow> digraph \<Rightarrow> string \<times> (error + digraph)" where
  "transform_cells stdout_write geod_inv self dims [] idx out currents_graph =
     (out, Inr currents_graph)"
| "transform_cells stdout_write geod_inv self dims ((y, x) # rest) idx out currents_graph =
     (let idx' = (if verbose self then idx + 1 else idx);
          printed = (if verbose self
                     then print_progress_bar stdout_write idx' (fst dims * snd dims)
                     else Inr [])
      in case printed of
           Inl e \<Rightarrow> (out, Inl e)
         | Inr line \<Rightarrow>
             (case get_neighbors geod_inv self y x dims of
                Inl e \<Rightarrow> (out @ line, Inl e)
              | Inr ns \<Rightarrow>
                  transform_cells stdout_write geod_inv self dims rest idx' (out @ line)
                    (add_edges_from ns currents_graph)))"

definition transform_map ::
  "(string \<Rightarrow> error option) \<Rightarrow> geod \<Rightarrow> engine \<Rightarrow> string \<times> (error + digraph)" where
  "transform_map stdout_write geod_inv self =
     (let y_dim = shape0 (currents self);
          x_dim = shape1 (currents self)
      in transform_cells stdout_write geod_inv self (int y_dim, int x_dim)
           (grid_cells y_dim x_dim) 0 [] [])"

subsection \<open>The spatial index: \<open>scipy.spatial.KDTree\<close>\<close>

text \<open>
  The tree is built over the coordinates of the grid in row-major order, and
  \<open>query\<close> returns the index of a point nearest to the query point in the Euclidean
  distance of the raw pairs. The model keeps the list of points and scans it; among
  several nearest points it returns the first. scipy refuses an empty list of points
  (\<open>ValueError\<close>); \<open>query\<close> on no points answers the number of points.
\<close>

definition sqdist :: "real \<times> real \<Rightarrow> real \<times> real \<Rightarrow> real" where
  "sqdist p q = (fst p - fst q)\<^sup>2 + (snd p - snd q)\<^sup>2"

fun nearest_from :: "real \<times> real \<Rightarrow> (real \<times> real) list \<Rightarrow> nat \<Rightarrow> nat \<Rightarrow> real \<Rightarrow> nat" where
  "nearest_from p [] i best best_d = best"
| "nearest_from p (q # qs) i best best_d =
     (if sqdist p q < best_d then nearest_from p qs (i + 1) i (sqdist p q)
      else nearest_from p qs (i + 1) best best_d)"

definition query :: "(real \<times> real) list \<Rightarrow> real \<times> real \<Rightarrow> nat" where
  "query tree p = (case tree of [] \<Rightarrow> 0 | q # qs \<Rightarrow> nearest_from p qs 1 0 (sqdist p q))"

definition build_tree :: "engine \<Rightarrow> error + (real \<times> real) list" where
  "build_tree self =
     (let model_grid =
            concat (map (\<lambda>y. map (\<lambda>x. cells (latlons self) y x) [0..<shape1 (latlons self)])
                      [0..<shape0 (latlons self)])
      in if model_grid = [] then Inl ValueError else Inr model_grid)"

definition unravel_index :: "nat \<Rightarrow> nat \<times> nat \<Rightarrow> error + int \<times> int" where
  "unravel_index i shape =
     (case shape of (y_dim, x_dim) \<Rightarrow>
        if i < y_dim * x_dim then Inr (int (i div x_dim), int (i mod x_dim))
        else Inl ValueError)"

definition geo_idx :: "engine \<Rightarrow> real \<times> real \<Rightarrow> error + int \<times> int" where
  "geo_idx self geo_pos =
     (case geo_pos of (lat, lon) \<Rightarrow>
        unravel_index (query (kdtree self) (lat, lon))
          (shape0 (latlons self), shape1 (latlons self)))"

definition get_current :: "engine \<Rightarrow> real \<times> real \<Rightarrow> error + real \<times> real" where
  "get_current self geo_pos =
     (case geo_idx self geo_pos of
        Inl e \<Rightarrow> Inl e
      | Inr (y, x) \<Rightarrow> getitem (currents self) y x)"

subsection \<open>Construction and update of the engine\<close>

text \<open>
  \<open>__init__\<close> builds the graph, then the tree. \<open>set_currents_map\<close> replaces the two
  arrays and rebuilds the graph; the result is what was printed, the exception if one was
  raised, and the state of the object afterwards.
\<close>

definition init ::
  "(string \<Rightarrow> error option) \<Rightarrow> geod \<Rightarrow> real \<Rightarrow> (real \<times> real) ndarray
     \<Rightarrow> (real \<times> real) ndarray \<Rightarrow> bool \<Rightarrow> string \<times> (error + engine)" where
  "init stdout_write geod_inv nav_timestep latlons_arg currents_arg verbose_arg =
     (let self = \<lparr>latlons = latlons_arg, currents = currents_arg, timestep = nav_timestep,
                  verbose = verbose_arg, nav_graph = [], kdtree = []\<rparr>
      in case transform_map stdout_write geod_inv self of
           (out, Inl e) \<Rightarrow> (out, Inl e)
         | (out, Inr g) \<Rightarrow>
             (case build_tree (self\<lparr>nav_graph := g\<rparr>) of
                Inl e \<Rightarrow> (out, Inl e)
              | Inr t \<Rightarrow> (out, Inr (self\<lparr>nav_graph := g, kdtree := t\<rparr>))))"

definition set_currents_map ::
  "(string \<Rightarrow> error option) \<Rightarrow> geod \<Rightarrow> engine \<Rightarrow> (real \<times> real) ndarray
     \<Rightarrow> (real \<times> real) ndarray \<Rightarrow> string \<times> error option \<times> engine" where
  "set_currents_map stdout_write geod_inv self latlons_arg currents_arg =
     (let self' = self\<lparr>latlons := latlons_arg, currents := currents_arg\<rparr>
      in case transform_map stdout_write geod_inv self' of
           (out, Inl e) \<Rightarrow> (out, Some e, self')
         | (out, Inr g) \<Rightarrow> (out, None, self'\<lparr>nav_graph := g\<rparr>))"

subsection \<open>Shortest paths: \<open>networkx.dijkstra_path\<close>\<close>

text \<open>
  networkx keeps the fringe in a binary heap of triples \<open>(distance, counter, node)\<close>; the
  counter is different in every triple, so the heap pops the triples in the order of
  \<open>(distance, counter)\<close>. The model keeps the fringe sorted in that order: \<open>heappush\<close>
  inserts, the head is what \<open>heappop\<close> returns.
\<close>

type_synonym heap = "(real \<times> nat \<times> node_id) list"

definition key_less :: "real \<times> nat \<times> node_id \<Rightarrow> real \<times> nat \<times> node_id \<Rightarrow> bool" where
  "key_less a b \<longleftrightarrow> fst a < fst b \<or> (fst a = fst b \<and> fst (snd a) < fst (snd b))"

fun heappush :: "real \<times> nat \<times> node_id \<Rightarrow> heap \<Rightarrow> heap" where
  "heappush a [] = [a]"
| "heappush a (b # bs) = (if key_less a b then a # b # bs else b # heappush a bs)"

text \<open>
  The inner loop of \<open>_dijkstra_multisource\<close> over the successors \<open>u\<close> of the node
  \<open>v\<close> just popped with distance \<open>d\<close>: the state is \<open>seen\<close>, \<open>paths\<close>, the fringe and the
  counter. The dictionary \<open>dist\<close> of the source is called \<open>dists\<close>.
\<close>

fun relax ::
  "(node_id \<rightharpoonup> real) \<Rightarrow> node_id \<Rightarrow> real \<Rightarrow> (node_id \<times> edge_attr) list
     \<Rightarrow> (node_id \<rightharpoonup> real) \<times> (node_id \<rightharpoonup> node_id list) \<times> heap \<times> nat
     \<Rightarrow> error + (node_id \<rightharpoonup> real) \<times> (node_id \<rightharpoonup> node_id list) \<times> heap \<times> nat" where
  "relax dists v d [] st = Inr st"
| "relax dists v d ((u, e) # rest) (seen, paths, fringe, c) =
     (let vu_dist = d + weight e in
      case dists u of
        Some u_dist \<Rightarrow>
          if vu_dist < u_dist then Inl ValueError
          else relax dists v d rest (seen, paths, fringe, c)
      | None \<Rightarrow>
          if (case seen u of None \<Rightarrow> True | Some s \<Rightarrow> vu_dist < s)
          then (case paths v of
                  None \<Rightarrow> Inl KeyError
                | Some pv \<Rightarrow>
                    relax dists v d rest
                      (seen(u \<mapsto> vu_dist), paths(u \<mapsto> pv @ [u]),
                       heappush (vu_dist, c, u) fringe, c + 1))
          else relax dists v d rest (seen, paths, fringe, c))"

function (sequential) dijkstra_loop ::
  "digraph \<Rightarrow> node_id \<Rightarrow> (node_id \<rightharpoonup> real) \<Rightarrow> (node_id \<rightharpoonup> real)
     \<Rightarrow> (node_id \<rightharpoonup> node_id list) \<Rightarrow> heap \<Rightarrow> nat
     \<Rightarrow> error + (node_id \<rightharpoonup> real) \<times> (node_id \<rightharpoonup> node_id list)" where
  "dijkstra_loop g target dists seen paths [] c = Inr (dists, paths)"
| "dijkstra_loop g target dists seen paths ((d, k, v) # fringe) c =
     (if dists v \<noteq> None then dijkstra_loop g target dists seen paths fringe c
      else if v = target then Inr (dists(v \<mapsto> d), paths)
      else
        case map_of g v of
          None \<Rightarrow> Inl KeyError
        | Some succs \<Rightarrow>
            (case relax (dists(v \<mapsto> d)) v d succs (seen, paths, fringe, c) of
               Inl e \<Rightarrow> Inl e
             | Inr (seen', paths', fringe', c') \<Rightarrow>
                 dijkstra_loop g target (dists(v \<mapsto> d)) seen' paths' fringe' c'))"
  by pat_completeness auto
termination
proof (relation "measures [\<lambda>(g, target, dists, seen, paths, fringe, c). card (fst ` set g - dom dists),
                          \<lambda>(g, target, dists, seen, paths, fringe, c). length fringe]")
  show "wf (measures [\<lambda>(g, target, dists, seen, paths, fringe, c). card (fst ` set g - dom dists),
                          \<lambda>(g, target, dists, seen, paths, fringe, c). length fringe])"
    by simp
next
  fix g :: digraph and target :: node_id and dists seen :: "node_id \<rightharpoonup> real"
    and paths :: "node_id \<rightharpoonup> node_id list" and d :: real and k :: nat and v :: node_id
    and fringe :: heap and c :: nat
  show "((g, target, dists, seen, paths, fringe, c), (g, target, dists, seen, paths, (d, k, v) # fringe, c))
        \<in> measures [\<lambda>(g, target, dists, seen, paths, fringe, c). card (fst ` set g - dom dists),
                          \<lambda>(g, target, dists, seen, paths, fringe, c). length fringe]"
    by simp
next
  fix g :: digraph and target :: node_id and dists seen :: "node_id \<rightharpoonup> real"
    and paths :: "node_id \<rightharpoonup> node_id list" and d :: real and k :: nat and v :: node_id
    and fringe :: heap and c :: nat and succs x seen' y paths' z fringe' c'
  assume nd: "\<not> dists v \<noteq> None" and s: "map_of g v = Some succs"
  have v: "v \<in> fst ` set g - dom dists"
    using nd map_of_SomeD [OF s] by (auto simp: image_iff intro: bexI [of _ "(v, succs)"])
  have fin: "finite (fst ` set g - dom dists)" by simp
  have eq: "fst ` set g - dom (dists(v \<mapsto> d)) = (fst ` set g - dom dists) - {v}" by auto
  have "card (fst ` set g - dom (dists(v \<mapsto> d))) < card (fst ` set g - dom dists)"
    unfolding eq by (rule card_Diff1_less [OF fin v])
  then show "((g, target, dists(v \<mapsto> d), seen', paths', fringe', c'),
              (g, target, dists, seen, paths, (d, k, v) # fringe, c))
        \<in> measures [\<lambda>(g, target, dists, seen, paths, fringe, c). card (fst ` set g - dom dists),
                          \<lambda>(g, target, dists, seen, paths, fringe, c). length fringe]"
    by simp
qed

text \<open>
  \<open>dijkstra_path\<close>: a source that is no node of the graph raises \<open>NodeNotFound\<close>, the
  path from a node to itself is that node alone, and a target that was not reached raises
  \<open>NetworkXNoPath\<close>.
\<close>

definition dijkstra_path :: "digraph \<Rightarrow> node_id \<Rightarrow> node_id \<Rightarrow> error + node_id list" where
  "dijkstra_path g source target =
     (if source \<notin> set (nodes g) then Inl NodeNotFound
      else if target = source then Inr [target]
      else
        case dijkstra_loop g target Map.empty [source \<mapsto> 0] [source \<mapsto> [source]]
               [(0, 0, source)] 1 of
          Inl e \<Rightarrow> Inl e
        | Inr (dists, paths) \<Rightarrow>
            (case dists target of
               None \<Rightarrow> Inl NetworkXNoPath
             | Some d \<Rightarrow> (case paths target of None \<Rightarrow> Inl NetworkXNoPath | Some p \<Rightarrow> Inr p)))"

subsection \<open>The query: \<open>get_next_azimuth\<close>\<close>

definition get_next_azimuth ::
  "engine \<Rightarrow> real \<times> real \<Rightarrow> real \<times> real \<Rightarrow> error + real \<times> (real \<times> real) list" where
  "get_next_azimuth self geo_pos geo_dest =
     (case geo_idx self geo_pos of Inl e \<Rightarrow> Inl e | Inr idx_pos \<Rightarrow>
     (case geo_idx self geo_dest of Inl e \<Rightarrow> Inl e | Inr idx_dest \<Rightarrow>
     (case encode_node_id idx_pos of Inl e \<Rightarrow> Inl e | Inr src_node \<Rightarrow>
     (case encode_node_id idx_dest of Inl e \<Rightarrow> Inl e | Inr dest_node \<Rightarrow>
     (case dijkstra_path (nav_graph self) src_node dest_node of
        Inl e \<Rightarrow> Inl e
      | Inr shortest_path \<Rightarrow>
          if length shortest_path < 2 then Inl IndexError
          else
            (case edge_data (nav_graph self) src_node (shortest_path ! 1) of
               None \<Rightarrow> Inl KeyError
             | Some dd \<Rightarrow>
                 (case collect (map decode_node_id shortest_path) of
                    Inl e \<Rightarrow> Inl e
                  | Inr path_ids \<Rightarrow>
                      (case collect (map (\<lambda>(y, x). getitem (latlons self) y x) path_ids) of
                         Inl e \<Rightarrow> Inl e
                       | Inr path_coords \<Rightarrow> Inr (azimuth dd, path_coords)))))))))"

subsection \<open>Notions used in the statements\<close>

definition node_of :: "int \<times> int \<Rightarrow> node_id" where
  "node_of c = (case encode_node_id c of Inr n \<Rightarrow> n | Inl e \<Rightarrow> [])"

definition in_grid :: "int \<times> int \<Rightarrow> int \<times> int \<Rightarrow> bool" where
  "in_grid dims c = (0 \<le> fst c \<and> fst c < fst dims \<and> 0 \<le> snd c \<and> snd c < snd dims)"

definition coord_at :: "engine \<Rightarrow> int \<times> int \<Rightarrow> real \<times> real" where
  "coord_at self c = cells (latlons self) (nat (fst c)) (nat (snd c))"

definition flow_at :: "engine \<Rightarrow> int \<times> int \<Rightarrow> real \<times> real" where
  "flow_at self c = cells (currents self) (nat (fst c)) (nat (snd c))"

definition cell_edges :: "geod \<Rightarrow> engine \<Rightarrow> int \<times> int \<Rightarrow> int \<times> int \<Rightarrow> edge list" where
  "cell_edges geod_inv self dims c =
     map (\<lambda>c'. (node_of c, node_of c',
                 edge_attributes geod_inv (timestep self) (coord_at self c) (flow_at self c)
                   (coord_at self c')))
       (valid_neighbors (fst c) (snd c) dims)"

definition buildable :: "engine \<Rightarrow> bool" where
  "buildable self \<longleftrightarrow>
     shape0 (currents self) \<le> shape0 (latlons self) \<and>
     shape1 (currents self) \<le> shape1 (latlons self) \<and>
     shape0 (currents self) \<le> 4294967296 \<and> shape1 (currents self) \<le> 4294967296"

definition dims_of :: "engine \<Rightarrow> int \<times> int" where
  "dims_of self = (int (shape0 (currents self)), int (shape1 (currents self)))"

definition adjacent8 :: "int \<times> int \<Rightarrow> int \<times> int \<Rightarrow> bool" where
  "adjacent8 c c' \<longleftrightarrow> \<bar>fst c - fst c'\<bar> \<le> 1 \<and> \<bar>snd c - snd c'\<bar> \<le> 1 \<and> c \<noteq> c'"

definition all_edges :: "geod \<Rightarrow> engine \<Rightarrow> edge list" where
  "all_edges geod_inv self =
     concat (map (cell_edges geod_inv self (dims_of self))
       (grid_cells (shape0 (currents self)) (shape1 (currents self))))"

definition built_graph :: "geod \<Rightarrow> engine \<Rightarrow> digraph" where
  "built_graph geod_inv self = fold add_edge (all_edges geod_inv self) []"




subsection \<open>Reachability and the invariants of the search\<close>

text \<open>
  A node is reachable from another along the edges of the graph. The other notions are
  the invariants of the loop of Dijkstra's algorithm, for a function \<open>L\<close> that bounds
  the distance of every node from below: the fringe is sorted and holds nodes that were
  reached, and the distances that are final are not above the ones in the fringe.
\<close>

definition reachable :: "digraph \<Rightarrow> node_id \<Rightarrow> node_id \<Rightarrow> bool" where
  "reachable g s t \<longleftrightarrow> (s, t) \<in> (set (edges g))\<^sup>*"

definition fringe_ok ::
  "digraph \<Rightarrow> node_id \<Rightarrow> (node_id \<Rightarrow> real) \<Rightarrow> (node_id \<rightharpoonup> node_id list) \<Rightarrow> heap \<Rightarrow> bool" where
  "fringe_ok g source L paths fringe \<longleftrightarrow>
     sorted_wrt (\<lambda>a b. fst a \<le> fst b) fringe \<and>
     (\<forall>(d, k, v) \<in> set fringe.
        v \<in> fst ` set g \<and> paths v \<noteq> None \<and> L v \<le> d \<and> reachable g source v)"

definition succs_ok ::
  "digraph \<Rightarrow> (node_id \<Rightarrow> real) \<Rightarrow> node_id \<Rightarrow> (node_id \<times> edge_attr) list \<Rightarrow> bool" where
  "succs_ok g L v succs \<longleftrightarrow>
     (\<forall>(u, e) \<in> set succs.
        u \<in> fst ` set g \<and> 0 \<le> weight e \<and> L u \<le> L v + weight e \<and> (v, u) \<in> set (edges g))"

definition dists_ok :: "digraph \<Rightarrow> node_id \<Rightarrow> (node_id \<rightharpoonup> real) \<Rightarrow> heap \<Rightarrow> bool" where
  "dists_ok g source dists fringe \<longleftrightarrow>
     (\<forall>u d'. dists u = Some d' \<longrightarrow>
        reachable g source u \<and> (\<forall>(d, k, x) \<in> set fringe. d' \<le> d))"

definition direct_ok ::
  "node_id \<Rightarrow> (node_id \<Rightarrow> real) \<Rightarrow> (node_id \<rightharpoonup> real) \<Rightarrow> (node_id \<rightharpoonup> node_id list)
     \<Rightarrow> (node_id \<rightharpoonup> real) \<Rightarrow> heap \<Rightarrow> real \<Rightarrow> node_id list \<Rightarrow> bool" where
  "direct_ok target L seen paths dists fringe W P \<longleftrightarrow>
     seen target = Some W \<and> W \<le> L target \<and> paths target = Some P \<and>
     (dists target \<noteq> None \<or> target \<in> (\<lambda>a. snd (snd a)) ` set fringe)"

definition loop_post ::
  "digraph \<Rightarrow> node_id \<Rightarrow> node_id \<Rightarrow> (node_id \<Rightarrow> real) \<Rightarrow> (node_id \<rightharpoonup> real)
     \<Rightarrow> (node_id \<rightharpoonup> node_id list) \<Rightarrow> (node_id \<rightharpoonup> real) \<Rightarrow> heap
     \<Rightarrow> error + (node_id \<rightharpoonup> real) \<times> (node_id \<rightharpoonup> node_id list) \<Rightarrow> bool" where
  "loop_post g source target L seen paths dists fringe res \<longleftrightarrow>
     (\<exists>dists' paths'. res = Inr (dists', paths') \<and>
        (\<forall>u. dists' u \<noteq> None \<longrightarrow> reachable g source u) \<and>
        (\<forall>W P. direct_ok target L seen paths dists fringe W P
              \<longrightarrow> dists' target \<noteq> None \<and> paths' target = Some P))"

definition graph_ok :: "digraph \<Rightarrow> bool" where
  "graph_ok g \<longleftrightarrow>
     distinct (map fst g) \<and>
     (\<forall>(v, succs) \<in> set g.
        distinct (map fst succs) \<and> (\<forall>(u, e) \<in> set succs. u \<in> fst ` set g \<and> 0 \<le> weight e))"

subsection \<open>Example inputs\<close>

text \<open>
  Concrete inputs for the examples below: an output stream that takes every text and
  one that takes ASCII only, a planar stand-in for the geodesic computation
  (azimuth 0 or 180 by latitude, taxicab distance), a grid whose cell \<open>(y, x)\<close> has
  the coordinate \<open>(y, x)\<close>, a flow field \<open>(0, k * y)\<close>, and an engine over them
  with a timestep of one second.
\<close>

definition utf8_stdout :: "string \<Rightarrow> error option" where
  "utf8_stdout s = None"

definition ascii_stdout :: "string \<Rightarrow> error option" where
  "ascii_stdout s = (if \<exists>c \<in> set s. 128 \<le> (of_char c :: nat) then Some UnicodeEncodeError else None)"

definition example_geod :: geod where
  "example_geod lon1 lat1 lon2 lat2 =
     ((if lat1 \<le> lat2 then 0 else 180), (if lat1 \<le> lat2 then 180 else 0),
      \<bar>lat2 - lat1\<bar> + \<bar>lon2 - lon1\<bar>)"


definition example_grid :: "nat \<Rightarrow> nat \<Rightarrow> (real \<times> real) ndarray" where
  "example_grid y_dim x_dim = \<lparr>shape0 = y_dim, shape1 = x_dim, cells = (\<lambda>y x. (real y, real x))\<rparr>"

definition example_flow :: "nat \<Rightarrow> nat \<Rightarrow> real \<Rightarrow> (real \<times> real) ndarray" where
  "example_flow y_dim x_dim k = \<lparr>shape0 = y_dim, shape1 = x_dim, cells = (\<lambda>y x. (0, k * real y))\<rparr>"

definition example_engine :: "nat \<Rightarrow> nat \<Rightarrow> real \<Rightarrow> engine" where
  "example_engine y_dim x_dim k =
     \<lparr>latlons = example_grid y_dim x_dim, currents = example_flow y_dim x_dim k,
      timestep = 1, verbose = False, nav_graph = [], kdtree = []\<rparr>"

text \<open>
  A second grid, moved north by \<open>s\<close> degrees, and the engine that \<open>__init__\<close> returns
  for the example inputs.
\<close>

definition example_grid_shifted :: "nat \<Rightarrow> nat \<Rightarrow> real \<Rightarrow> (real \<times> real) ndarray" where
  "example_grid_shifted y_dim x_dim s =
     \<lparr>shape0 = y_dim, shape1 = x_dim, cells = (\<lambda>y x. (real y + s, real x))\<rparr>"

definition example_navigator :: "nat \<Rightarrow> nat \<Rightarrow> real \<Rightarrow> engine" where
  "example_navigator y_dim x_dim k =
     (example_engine y_dim x_dim k)
       \<lparr>nav_graph := built_graph example_geod (example_engine y_dim x_dim k),
        kdtree := concat (map (\<lambda>y. map (\<lambda>x. (real y, real x)) [0..<x_dim]) [0..<y_dim])\<rparr>"

text \<open>
  An engine whose coordinate grid has two columns and whose flow field has one: the
  graph is built over the cells of the flow field, the tree over all coordinates.
\<close>

definition example_wide_engine :: engine where
  "example_wide_engine =
     \<lparr>latlons = example_grid 2 2, currents = example_flow 2 1 0,
      timestep = 1, verbose = False, nav_graph = [], kdtree = []\<rparr>"

definition example_wide_navigator :: engine where
  "example_wide_navigator =
     example_wide_engine
       \<lparr>nav_graph := built_graph example_geod example_wide_engine,
        kdtree := [(0, 0), (0, 1), (1, 0), (1, 1)]\<rparr>"


section \<open>Properties\<close>

subsection \<open>Node identifiers\<close>

lemma bytes_sum:
  fixes v :: int
  assumes "0 \<le> v" "v < 4294967296"
  shows "v mod 256 + 256 * (v div 256 mod 256) + 65536 * (v div 65536 mod 256)
          + 16777216 * (v div 16777216 mod 256) = v"
proof -
  define a where "a = v div 256"
  define b where "b = a div 256"
  define c where "c = b div 256"
  have b: "v div 65536 = b"
    unfolding b_def a_def by (simp add: zdiv_zmult2_eq)
  have c: "v div 16777216 = c"
    unfolding c_def b_def a_def by (simp add: zdiv_zmult2_eq)
  have "c < 256" "0 \<le> c"
    using assms unfolding c [symmetric] by simp_all
  then have cm: "c mod 256 = c" by simp
  have v: "v = v mod 256 + 256 * a" unfolding a_def by simp
  have a: "a = a mod 256 + 256 * b" unfolding b_def by simp
  have b': "b = b mod 256 + 256 * c" unfolding c_def by simp
  have "v mod 256 + 256 * (a mod 256) + 65536 * (b mod 256) + 16777216 * c = v"
    using v a b' by linarith
  then show ?thesis
    unfolding b c cm a_def [symmetric] .
qed

lemma uint_byte: "uint (word_of_int k :: byte) = k mod 256"
  by (simp add: uint_word_of_int)

lemma nth4:
  "[a, b, c, d] ! 0 = a" "[a, b, c, d] ! 1 = b" "[a, b, c, d] ! 2 = c" "[a, b, c, d] ! 3 = d"
  by (simp_all add: numeral_3_eq_3 numeral_2_eq_2)

lemma unpack_pack_I:
  assumes "0 \<le> v" "v < 4294967296"
  shows "\<exists>bs. pack_I v = Inr bs \<and> length bs = 4 \<and> unpack_I bs = v"
proof -
  let ?bs = "[word_of_int v, word_of_int (v div 256),
                word_of_int (v div 65536), word_of_int (v div 16777216)] :: byte list"
  have p: "pack_I v = Inr ?bs"
    unfolding pack_I_def using assms by (simp only: if_True simp_thms)
  have u: "unpack_I ?bs = v"
    unfolding unpack_I_def nth4 uint_byte by (rule bytes_sum [OF assms])
  have "length ?bs = 4" by simp
  with p u show ?thesis by blast
qed

lemma encode_decode:
  assumes "0 \<le> y" "y < 4294967296" "0 \<le> x" "x < 4294967296"
  shows "\<exists>n. encode_node_id (y, x) = Inr n \<and> length n = 8 \<and> decode_node_id n = Inr (y, x)"
proof -
  obtain a where a: "pack_I y = Inr a" "length a = 4" "unpack_I a = y"
    using unpack_pack_I [OF assms(1,2)] by blast
  obtain b where b: "pack_I x = Inr b" "length b = 4" "unpack_I b = x"
    using unpack_pack_I [OF assms(3,4)] by blast
  show ?thesis
    using a b by (simp add: encode_node_id_def decode_node_id_def)
qed

lemma encode_inj:
  assumes "0 \<le> y" "y < 4294967296" "0 \<le> x" "x < 4294967296"
    and "0 \<le> y'" "y' < 4294967296" "0 \<le> x'" "x' < 4294967296"
    and "encode_node_id (y, x) = encode_node_id (y', x')"
  shows "y = y' \<and> x = x'"
proof -
  obtain n where n: "encode_node_id (y, x) = Inr n" "decode_node_id n = Inr (y, x)"
    using encode_decode [OF assms(1-4)] by blast
  obtain n' where n': "encode_node_id (y', x') = Inr n'" "decode_node_id n' = Inr (y', x')"
    using encode_decode [OF assms(5-8)] by blast
  from n n' assms(9) have "n = n'" by simp
  with n n' show ?thesis by simp
qed

text \<open>
  Claim C3, as the code has it: a cell whose row and column fit an unsigned 32-bit field
  (in particular every cell of a grid with at most \<open>2^32\<close> rows and columns) is encoded
  to eight bytes, decoding them gives the cell back, and two such cells with the same
  identifier are the same cell.
\<close>

theorem encode_decode_roundtrip:
  assumes "y_dim \<le> 4294967296" "x_dim \<le> 4294967296"
    and "0 \<le> y" "y < y_dim" "0 \<le> x" "x < x_dim"
    and "0 \<le> y'" "y' < y_dim" "0 \<le> x'" "x' < x_dim"
  shows "(\<exists>n. encode_node_id (y, x) = Inr n \<and> decode_node_id n = Inr (y, x)) \<and>
         (encode_node_id (y, x) = encode_node_id (y', x') \<longrightarrow> (y, x) = (y', x'))"
proof -
  have r: "y < 4294967296" "x < 4294967296" "y' < 4294967296" "x' < 4294967296"
    using assms by linarith+
  have "\<exists>n. encode_node_id (y, x) = Inr n \<and> decode_node_id n = Inr (y, x)"
    using encode_decode [OF assms(3) r(1) assms(5) r(2)] by blast
  moreover have "encode_node_id (y, x) = encode_node_id (y', x') \<longrightarrow> (y, x) = (y', x')"
    using encode_inj [OF assms(3) r(1) assms(5) r(2) assms(7) r(3) assms(9) r(4)] by simp
  ultimately show ?thesis by blast
qed

theorem encode_decode_roundtrip_witness:
  "(\<exists>n. encode_node_id (2, 1) = Inr n \<and> decode_node_id n = Inr (2, 1)) \<and>
   encode_node_id (2, 1) \<noteq> encode_node_id (1, 2)"
  using encode_decode_roundtrip [of 3 3 2 1 1 2] by simp

text \<open>
  A grid with more than \<open>2^32\<close> rows has in-bounds cells that have no identifier:
  \<open>struct.pack\<close> raises for row \<open>2^32\<close>.
\<close>

theorem encode_large_row_counterexample:
  "(0::int) \<le> 4294967296 \<and> (4294967296::int) < 4294967297 \<and>
   encode_node_id (4294967296, 0) = Inl StructError"
  by (simp add: encode_node_id_def pack_I_def)

subsection \<open>Neighbours\<close>

text \<open>
  Claim C6: in a grid with at least two rows and two columns, a cell that is on no border has
  eight valid neighbours, a corner cell three, a border cell that is no corner five, and
  every valid neighbour lies within the grid.
\<close>

theorem valid_neighbors_count:
  assumes "2 \<le> y_dim" "2 \<le> x_dim" "0 \<le> ys" "ys < y_dim" "0 \<le> xs" "xs < x_dim"
  shows "(0 < ys \<and> ys < y_dim - 1 \<and> 0 < xs \<and> xs < x_dim - 1 \<longrightarrow>
            length (valid_neighbors ys xs (y_dim, x_dim)) = 8) \<and>
         ((ys = 0 \<or> ys = y_dim - 1) \<and> (xs = 0 \<or> xs = x_dim - 1) \<longrightarrow>
            length (valid_neighbors ys xs (y_dim, x_dim)) = 3) \<and>
         (((ys = 0 \<or> ys = y_dim - 1) \<and> 0 < xs \<and> xs < x_dim - 1) \<or>
          (0 < ys \<and> ys < y_dim - 1 \<and> (xs = 0 \<or> xs = x_dim - 1)) \<longrightarrow>
            length (valid_neighbors ys xs (y_dim, x_dim)) = 5) \<and>
         (\<forall>(yd, xd) \<in> set (valid_neighbors ys xs (y_dim, x_dim)).
            0 \<le> yd \<and> yd < y_dim \<and> 0 \<le> xd \<and> xd < x_dim)"
proof -
  have in_grid: "\<forall>(yd, xd) \<in> set (valid_neighbors ys xs (y_dim, x_dim)).
            0 \<le> yd \<and> yd < y_dim \<and> 0 \<le> xd \<and> xd < x_dim"
    by (auto simp: valid_neighbors_def)
  have inner: "0 < ys \<and> ys < y_dim - 1 \<and> 0 < xs \<and> xs < x_dim - 1 \<longrightarrow>
            length (valid_neighbors ys xs (y_dim, x_dim)) = 8"
    by (simp add: valid_neighbors_def neighbors_def)
  have corner: "(ys = 0 \<or> ys = y_dim - 1) \<and> (xs = 0 \<or> xs = x_dim - 1) \<longrightarrow>
            length (valid_neighbors ys xs (y_dim, x_dim)) = 3"
    using assms by (auto simp: valid_neighbors_def neighbors_def)
  have border: "((ys = 0 \<or> ys = y_dim - 1) \<and> 0 < xs \<and> xs < x_dim - 1) \<or>
          (0 < ys \<and> ys < y_dim - 1 \<and> (xs = 0 \<or> xs = x_dim - 1)) \<longrightarrow>
            length (valid_neighbors ys xs (y_dim, x_dim)) = 5"
    using assms by (auto simp: valid_neighbors_def neighbors_def)
  show ?thesis
    using in_grid inner corner border by blast
qed

theorem valid_neighbors_count_witness:
  "length (valid_neighbors 1 1 (3, 3)) = 8 \<and> length (valid_neighbors 0 0 (2, 2)) = 3 \<and>
   length (valid_neighbors 0 1 (2, 3)) = 5 \<and>
   set (valid_neighbors 0 0 (2, 2)) = {(0, 1), (1, 1), (1, 0)}"
proof -
  have a: "length (valid_neighbors 1 1 (3, 3)) = 8"
    using valid_neighbors_count [of 3 3 1 1] by simp
  have b: "length (valid_neighbors 0 0 (2, 2)) = 3"
    using valid_neighbors_count [of 2 2 0 0] by simp
  have c: "length (valid_neighbors 0 1 (2, 3)) = 5"
    using valid_neighbors_count [of 2 3 0 1] by simp
  have d: "set (valid_neighbors 0 0 (2, 2)) = {(0, 1), (1, 1), (1, 0)}"
    by (simp add: valid_neighbors_def neighbors_def insert_commute)
  show ?thesis
    using a b c d by simp
qed

subsection \<open>The graph\<close>

lemma map_of_dict_set: "map_of (dict_set k v d) = (map_of d)(k \<mapsto> v)"
  by (induction d) (auto simp: fun_eq_iff)

lemma in_keys_iff: "k \<in> fst ` set d \<longleftrightarrow> map_of d k \<noteq> None"
  by (simp add: map_of_eq_None_iff)

lemma keys_dict_set: "fst ` set (dict_set k v d) = insert k (fst ` set d)"
proof -
  have "dom (map_of (dict_set k v d)) = insert k (dom (map_of d))"
    by (simp add: map_of_dict_set)
  then show ?thesis by (simp add: dom_map_of_conv_image_fst)
qed

lemma map_fst_dict_set:
  "map fst (dict_set k v d) = (if map_of d k = None then map fst d @ [k] else map fst d)"
  by (induction d) auto

lemma distinct_dict_set: "distinct (map fst d) \<Longrightarrow> distinct (map fst (dict_set k v d))"
  by (simp add: map_fst_dict_set map_of_eq_None_iff)

lemma nodes_add_node: "set (nodes (add_node u g)) = insert u (set (nodes g))"
  by (auto simp: nodes_def add_node_def)

lemma distinct_add_node: "distinct (nodes g) \<Longrightarrow> distinct (nodes (add_node u g))"
  by (auto simp: nodes_def add_node_def)

lemma map_of_add_node:
  "map_of (add_node u g) = (if map_of g u = None then (map_of g)(u \<mapsto> []) else map_of g)"
  by (auto simp: add_node_def in_keys_iff fun_eq_iff map_add_def
           simp del: map_of_eq_None_iff split: option.splits)

lemma nodes_add_edge: "set (nodes (add_edge (u, v, dd) g)) = insert u (insert v (set (nodes g)))"
proof -
  have "fst ` set (add_node v (add_node u g)) = insert v (insert u (fst ` set g))"
    using nodes_add_node [of v "add_node u g"] nodes_add_node [of u g] by (simp add: nodes_def)
  then show ?thesis
    unfolding add_edge_def nodes_def by (auto simp: Let_def keys_dict_set)
qed

lemma distinct_add_edge: "distinct (nodes g) \<Longrightarrow> distinct (nodes (add_edge e g))"
  unfolding add_edge_def nodes_def
  by (cases e) (simp add: Let_def distinct_dict_set distinct_add_node [unfolded nodes_def])

lemma successors_add_node: "successors (add_node u g) w = successors g w"
  by (auto simp: successors_def map_of_add_node split: option.splits)

lemma edge_data_add_node: "edge_data (add_node u g) a b = edge_data g a b"
  by (auto simp: edge_data_def map_of_add_node split: option.splits)

lemma edge_data_add_edge:
  "edge_data (add_edge (u, v, dd) g) a b = (if a = u \<and> b = v then Some dd else edge_data g a b)"
proof -
  let ?g = "add_node v (add_node u g)"
  have "edge_data (add_edge (u, v, dd) g) a b =
        (if a = u then map_of (dict_set v dd (successors ?g u)) b else edge_data ?g a b)"
    by (simp add: add_edge_def Let_def edge_data_def map_of_dict_set)
  also have "\<dots> = (if a = u \<and> b = v then Some dd else edge_data ?g a b)"
    by (auto simp: map_of_dict_set edge_data_def successors_def split: option.splits)
  finally show ?thesis by (simp add: edge_data_add_node)
qed

lemma edges_iff:
  assumes "distinct (nodes g)"
  shows "(a, b) \<in> set (edges g) \<longleftrightarrow> (\<exists>d. edge_data g a b = Some d)"
proof -
  have "(a, b) \<in> set (edges g) \<longleftrightarrow> (\<exists>s. (a, s) \<in> set g \<and> b \<in> fst ` set s)"
    by (force simp: edges_def)
  also have "\<dots> \<longleftrightarrow> (\<exists>s. map_of g a = Some s \<and> map_of s b \<noteq> None)"
    using assms by (simp add: nodes_def map_of_eq_None_iff)
  also have "\<dots> \<longleftrightarrow> (\<exists>d. edge_data g a b = Some d)"
    by (auto simp: edge_data_def split: option.splits)
  finally show ?thesis .
qed

lemma length_edges: "length (edges g) = sum_list (map (\<lambda>e. length (snd e)) g)"
  by (induction g) (auto simp: edges_def)

lemma length_edges_dict_set:
  "map_of g u = Some s \<Longrightarrow>
   length (edges (dict_set u s' g)) + length s = length (edges g) + length s'"
  by (induction g) (auto simp: length_edges)

lemma length_dict_set: "length (dict_set k v d) \<le> Suc (length d)"
  by (induction d) auto

lemma length_edges_add_node: "length (edges (add_node u g)) = length (edges g)"
  by (simp add: add_node_def length_edges)

lemma length_edges_add_edge: "length (edges (add_edge e g)) \<le> Suc (length (edges g))"
proof -
  obtain u v dd where e: "e = (u, v, dd)" by (cases e)
  let ?g = "add_node v (add_node u g)"
  have "u \<in> set (nodes ?g)" by (simp add: nodes_add_node)
  then obtain s where s: "map_of ?g u = Some s"
    by (auto simp: nodes_def in_keys_iff simp del: map_of_eq_None_iff)
  then have su: "successors ?g u = s" by (simp add: successors_def)
  have "length (edges (dict_set u (dict_set v dd s) ?g)) + length s
        = length (edges ?g) + length (dict_set v dd s)"
    by (rule length_edges_dict_set [OF s])
  moreover have "length (dict_set v dd s) \<le> Suc (length s)" by (rule length_dict_set)
  ultimately have "length (edges (dict_set u (dict_set v dd s) ?g)) \<le> Suc (length (edges ?g))"
    by linarith
  then show ?thesis
    by (simp add: e add_edge_def Let_def su length_edges_add_node)
qed

lemma nodes_fold:
  "set (nodes (fold add_edge es g)) = set (nodes g) \<union> fst ` set es \<union> (\<lambda>e. fst (snd e)) ` set es"
proof (induction es arbitrary: g)
  case Nil
  then show ?case by simp
next
  case (Cons e es)
  obtain u v dd where e: "e = (u, v, dd)" by (cases e)
  show ?case by (simp add: Cons.IH e nodes_add_edge) blast
qed

lemma distinct_fold: "distinct (nodes g) \<Longrightarrow> distinct (nodes (fold add_edge es g))"
  by (induction es arbitrary: g) (simp_all add: distinct_add_edge)

lemma length_edges_fold: "length (edges (fold add_edge es g)) \<le> length (edges g) + length es"
proof (induction es arbitrary: g)
  case Nil
  then show ?case by simp
next
  case (Cons e es)
  have "length (edges (fold add_edge es (add_edge e g))) \<le> length (edges (add_edge e g)) + length es"
    by (rule Cons.IH)
  with length_edges_add_edge [of e g] show ?case by simp
qed

lemma edge_data_fold_None:
  "(\<exists>d. edge_data (fold add_edge es g) a b = Some d) \<longleftrightarrow>
   (\<exists>d. edge_data g a b = Some d) \<or> (\<exists>dd. (a, b, dd) \<in> set es)"
proof (induction es arbitrary: g)
  case Nil
  then show ?case by simp
next
  case (Cons e es)
  obtain u v dd where e: "e = (u, v, dd)" by (cases e)
  have "(\<exists>d. edge_data (fold add_edge (e # es) g) a b = Some d) \<longleftrightarrow>
        (\<exists>d. edge_data (add_edge e g) a b = Some d) \<or> (\<exists>dd. (a, b, dd) \<in> set es)"
    using Cons.IH [of "add_edge e g"] by simp
  also have "\<dots> \<longleftrightarrow> (\<exists>d. edge_data g a b = Some d) \<or> (\<exists>dd. (a, b, dd) \<in> set (e # es))"
    by (auto simp: e edge_data_add_edge)
  finally show ?case .
qed


lemma getitem_in:
  "0 \<le> y \<Longrightarrow> y < int (shape0 a) \<Longrightarrow> 0 \<le> x \<Longrightarrow> x < int (shape1 a) \<Longrightarrow>
   getitem a y x = Inr (cells a (nat y) (nat x))"
  by (simp add: getitem_def norm_index_def)

lemma collect_map: "(\<And>x. x \<in> set xs \<Longrightarrow> f x = Inr (h x)) \<Longrightarrow> collect (map f xs) = Inr (map h xs)"
  by (induction xs) simp_all

lemma encode_node_of:
  assumes "0 \<le> fst c" "fst c < 4294967296" "0 \<le> snd c" "snd c < 4294967296"
  shows "encode_node_id c = Inr (node_of c)"
  using encode_decode [OF assms] by (auto simp: node_of_def)

lemma node_of_inj:
  assumes "0 \<le> fst c" "fst c < 4294967296" "0 \<le> snd c" "snd c < 4294967296"
    and "0 \<le> fst c'" "fst c' < 4294967296" "0 \<le> snd c'" "snd c' < 4294967296"
    and "node_of c = node_of c'"
  shows "c = c'"
proof -
  have "encode_node_id (fst c, snd c) = encode_node_id (fst c', snd c')"
    using encode_node_of [OF assms(1-4)] encode_node_of [OF assms(5-8)] assms(9) by simp
  from encode_inj [OF assms(1-8) this] show ?thesis by (simp add: prod_eq_iff)
qed

lemma valid_neighbors_in_grid: "c' \<in> set (valid_neighbors y x dims) \<Longrightarrow> in_grid dims c'"
  by (cases c'; cases dims) (simp add: valid_neighbors_def in_grid_def)

lemma valid_neighbors_nonempty:
  assumes "in_grid (Y, X) (y, x)" "\<not> (Y = 1 \<and> X = 1)"
  shows "valid_neighbors y x (Y, X) \<noteq> []"
proof -
  have b: "0 \<le> y" "y < Y" "0 \<le> x" "x < X"
    using assms(1) by (simp_all add: in_grid_def)
  consider "y + 1 < Y" | "0 \<le> y - 1" | "x + 1 < X" | "0 \<le> x - 1"
    using assms(2) b by linarith
  then have "\<exists>c. c \<in> set (valid_neighbors y x (Y, X))"
  proof cases
    case 1
    then have "(y + 1, x + 0) \<in> set (valid_neighbors y x (Y, X))"
      using b by (simp add: valid_neighbors_def neighbors_def)
    then show ?thesis by blast
  next
    case 2
    then have "(y - 1, x + 0) \<in> set (valid_neighbors y x (Y, X))"
      using b by (simp add: valid_neighbors_def neighbors_def)
    then show ?thesis by blast
  next
    case 3
    then have "(y + 0, x + 1) \<in> set (valid_neighbors y x (Y, X))"
      using b by (simp add: valid_neighbors_def neighbors_def)
    then show ?thesis by blast
  next
    case 4
    then have "(y + 0, x - 1) \<in> set (valid_neighbors y x (Y, X))"
      using b by (simp add: valid_neighbors_def neighbors_def)
    then show ?thesis by blast
  qed
  then show ?thesis by auto
qed

lemma in_grid_range:
  assumes "buildable self" "in_grid (dims_of self) c"
  shows "0 \<le> fst c" "fst c < 4294967296" "0 \<le> snd c" "snd c < 4294967296"
    "fst c < int (shape0 (latlons self))" "snd c < int (shape1 (latlons self))"
    "fst c < int (shape0 (currents self))" "snd c < int (shape1 (currents self))"
  using assms by (simp_all add: buildable_def in_grid_def dims_of_def)

lemma get_neighbors_ok:
  assumes b: "buildable self" and c: "in_grid (dims_of self) c"
    and ne: "valid_neighbors (fst c) (snd c) (dims_of self) \<noteq> []"
  shows "get_neighbors geod_inv self (fst c) (snd c) (dims_of self)
         = Inr (cell_edges geod_inv self (dims_of self) c)"
proof -
  let ?vn = "valid_neighbors (fst c) (snd c) (dims_of self)"
  note r = in_grid_range [OF b c]
  have src: "encode_node_id (fst c, snd c) = Inr (node_of c)"
    using encode_node_of [OF r(1-4)] by simp
  have ll: "getitem (latlons self) (fst c) (snd c) = Inr (coord_at self c)"
    using getitem_in [OF r(1) r(5) r(3) r(6)] by (simp add: coord_at_def)
  have cu: "getitem (currents self) (fst c) (snd c) = Inr (flow_at self c)"
    using getitem_in [OF r(1) r(7) r(3) r(8)] by (simp add: flow_at_def)
  have adj: "collect (map (\<lambda>(yd, xd). getitem (latlons self) yd xd) ?vn)
             = Inr (map (coord_at self) ?vn)"
  proof (rule collect_map)
    fix c' assume "c' \<in> set ?vn"
    then have g: "in_grid (dims_of self) c'" by (rule valid_neighbors_in_grid)
    note r' = in_grid_range [OF b g]
    show "(case c' of (yd, xd) \<Rightarrow> getitem (latlons self) yd xd) = Inr (coord_at self c')"
      using getitem_in [OF r'(1) r'(5) r'(3) r'(6)] by (cases c') (simp add: coord_at_def)
  qed
  have ids: "collect (map encode_node_id ?vn) = Inr (map node_of ?vn)"
  proof (rule collect_map)
    fix c' assume "c' \<in> set ?vn"
    then have g: "in_grid (dims_of self) c'" by (rule valid_neighbors_in_grid)
    show "encode_node_id c' = Inr (node_of c')"
      by (rule encode_node_of [OF in_grid_range(1-4) [OF b g]])
  qed
  have z: "zip (map node_of ?vn) (map (coord_at self) ?vn)
           = map (\<lambda>c'. (node_of c', coord_at self c')) ?vn"
    by (simp add: zip_map_map zip_same_conv_map)
  show ?thesis
    unfolding get_neighbors_def src ll cu adj ids Let_def
    using ne by (simp add: z cell_edges_def)
qed

lemma print_progress_bar_ok:
  assumes "\<And>s. stdout_write s = None" and "total_n \<noteq> 0"
  shows "\<exists>line. print_progress_bar stdout_write iteration total_n = Inr line"
  using assms by (simp add: print_progress_bar_def)

lemma transform_cells_ok:
  assumes "\<And>c. c \<in> set cs \<Longrightarrow> get_neighbors geod_inv self (fst c) (snd c) dims = Inr (E c)"
    and "verbose self \<Longrightarrow> cs \<noteq> [] \<Longrightarrow> fst dims * snd dims \<noteq> 0"
    and "\<And>s. verbose self \<Longrightarrow> stdout_write s = None"
  shows "snd (transform_cells stdout_write geod_inv self dims cs idx out g)
         = Inr (fold add_edge (concat (map E cs)) g)"
  using assms
proof (induction cs arbitrary: idx out g)
  case Nil
  then show ?case by simp
next
  case (Cons c cs)
  obtain y x where c: "c = (y, x)" by (cases c)
  have gn: "get_neighbors geod_inv self y x dims = Inr (E c)"
    using Cons.prems(1) [of c] by (simp add: c)
  have pr: "\<exists>line. (if verbose self
                     then print_progress_bar stdout_write (if verbose self then idx + 1 else idx)
                            (fst dims * snd dims)
                     else Inr []) = Inr line"
  proof (cases "verbose self")
    case True
    have "\<exists>line. print_progress_bar stdout_write (idx + 1) (fst dims * snd dims) = Inr line"
      by (rule print_progress_bar_ok) (use True Cons.prems(2,3) in simp_all)
    then show ?thesis using True by simp
  next
    case False
    then show ?thesis by simp
  qed
  then obtain line where line: "(if verbose self
                     then print_progress_bar stdout_write (if verbose self then idx + 1 else idx)
                            (fst dims * snd dims)
                     else Inr []) = Inr line" by blast
  have ih: "snd (transform_cells stdout_write geod_inv self dims cs (if verbose self then idx + 1 else idx)
                  (out @ line) (add_edges_from (E c) g))
            = Inr (fold add_edge (concat (map E cs)) (add_edges_from (E c) g))"
  proof (rule Cons.IH)
    show "\<And>c. c \<in> set cs \<Longrightarrow> get_neighbors geod_inv self (fst c) (snd c) dims = Inr (E c)"
      using Cons.prems(1) by simp
    show "verbose self \<Longrightarrow> cs \<noteq> [] \<Longrightarrow> fst dims * snd dims \<noteq> 0"
      using Cons.prems(2) by simp
    show "\<And>s. verbose self \<Longrightarrow> stdout_write s = None"
      using Cons.prems(3) by simp
  qed
  show ?case
    unfolding c transform_cells.simps Let_def line gn
    using ih by (simp add: c add_edges_from_def)
qed

lemma set_grid_cells: "set (grid_cells Y X) = {c. in_grid (int Y, int X) c}"
proof (rule set_eqI)
  fix c :: "int \<times> int"
  obtain a b where c: "c = (a, b)" by (cases c)
  have "c \<in> set (grid_cells Y X) \<longleftrightarrow> (\<exists>y<Y. \<exists>x<X. a = int y \<and> b = int x)"
    by (auto simp: grid_cells_def c image_iff Bex_def)
  also have "\<dots> \<longleftrightarrow> 0 \<le> a \<and> a < int Y \<and> 0 \<le> b \<and> b < int X"
  proof
    assume "\<exists>y<Y. \<exists>x<X. a = int y \<and> b = int x"
    then show "0 \<le> a \<and> a < int Y \<and> 0 \<le> b \<and> b < int X" by auto
  next
    assume h: "0 \<le> a \<and> a < int Y \<and> 0 \<le> b \<and> b < int X"
    then have "nat a < Y" "nat b < X" "a = int (nat a)" "b = int (nat b)" by linarith+
    then show "\<exists>y<Y. \<exists>x<X. a = int y \<and> b = int x" by blast
  qed
  finally show "c \<in> set (grid_cells Y X) \<longleftrightarrow> c \<in> {c. in_grid (int Y, int X) c}"
    by (simp add: in_grid_def c)
qed

lemma set_neighbors: "set (neighbors y x) = {c'. adjacent8 (y, x) c'}"
proof (rule set_eqI)
  fix c' :: "int \<times> int"
  obtain a b where c': "c' = (a, b)" by (cases c')
  have "adjacent8 (y, x) (a, b) \<longleftrightarrow>
        (a = y \<or> a = y + 1 \<or> a = y - 1) \<and> (b = x \<or> b = x + 1 \<or> b = x - 1) \<and> \<not> (a = y \<and> b = x)"
    unfolding adjacent8_def by (simp add: abs_le_iff) linarith
  then show "c' \<in> set (neighbors y x) \<longleftrightarrow> c' \<in> {c'. adjacent8 (y, x) c'}"
    unfolding c' neighbors_def by simp linarith
qed

lemma set_valid_neighbors:
  "set (valid_neighbors y x dims) = {c'. in_grid dims c' \<and> adjacent8 (y, x) c'}"
proof -
  obtain Y X where d: "dims = (Y, X)" by (cases dims)
  have "set (valid_neighbors y x dims) = {c' \<in> set (neighbors y x). in_grid dims c'}"
    by (auto simp: valid_neighbors_def in_grid_def d)
  then show ?thesis by (auto simp: set_neighbors)
qed

lemma length_valid_neighbors: "length (valid_neighbors y x dims) \<le> 8"
proof -
  obtain Y X where d: "dims = (Y, X)" by (cases dims)
  have "length (valid_neighbors y x dims) \<le> length (neighbors y x)"
    unfolding valid_neighbors_def d by (simp del: filter.simps)
  then show ?thesis by (simp add: neighbors_def)
qed

lemma length_grid_cells: "length (grid_cells Y X) = Y * X"
  by (simp add: grid_cells_def length_concat comp_def sum_list_triv)

lemma length_all_edges:
  "length (all_edges geod_inv self) \<le> 8 * shape0 (currents self) * shape1 (currents self)"
proof -
  have "\<And>(cs :: (int \<times> int) list) d. length (concat (map (cell_edges geod_inv self d) cs)) \<le> 8 * length cs"
  proof -
    fix cs :: "(int \<times> int) list" and d
    show "length (concat (map (cell_edges geod_inv self d) cs)) \<le> 8 * length cs"
    proof (induction cs)
      case Nil
      then show ?case by simp
    next
      case (Cons c cs)
      have "length (cell_edges geod_inv self d c) \<le> 8"
        by (simp add: cell_edges_def length_valid_neighbors)
      with Cons show ?case by simp
    qed
  qed
  then show ?thesis
    unfolding all_edges_def by (metis length_grid_cells mult.assoc)
qed

lemma in_all_edges:
  "(a, b, dd) \<in> set (all_edges geod_inv self) \<longleftrightarrow>
   (\<exists>c c'. in_grid (dims_of self) c \<and> c' \<in> set (valid_neighbors (fst c) (snd c) (dims_of self)) \<and>
      a = node_of c \<and> b = node_of c' \<and>
      dd = edge_attributes geod_inv (timestep self) (coord_at self c) (flow_at self c) (coord_at self c'))"
  unfolding all_edges_def
  by (auto simp: set_grid_cells cell_edges_def dims_of_def)

lemma transform_map_ok:
  assumes "buildable self" "\<not> (shape0 (currents self) = 1 \<and> shape1 (currents self) = 1)"
    and "\<And>s. verbose self \<Longrightarrow> stdout_write s = None"
  shows "snd (transform_map stdout_write geod_inv self)
         = Inr (fold add_edge (all_edges geod_inv self) [])"
proof -
  let ?Y = "shape0 (currents self)" and ?X = "shape1 (currents self)"
  have d: "(int ?Y, int ?X) = dims_of self" by (simp add: dims_of_def)
  have gn: "\<And>c. c \<in> set (grid_cells ?Y ?X) \<Longrightarrow>
          get_neighbors geod_inv self (fst c) (snd c) (dims_of self)
          = Inr (cell_edges geod_inv self (dims_of self) c)"
  proof -
    fix c assume "c \<in> set (grid_cells ?Y ?X)"
    then have g: "in_grid (dims_of self) c" by (simp add: set_grid_cells d)
    have "in_grid (int ?Y, int ?X) (fst c, snd c)" using g by (simp add: d)
    then have "valid_neighbors (fst c) (snd c) (int ?Y, int ?X) \<noteq> []"
      by (rule valid_neighbors_nonempty) (use assms(2) in simp)
    then show "get_neighbors geod_inv self (fst c) (snd c) (dims_of self)
          = Inr (cell_edges geod_inv self (dims_of self) c)"
      using get_neighbors_ok [OF assms(1) g] by (simp add: d)
  qed
  have nz: "grid_cells ?Y ?X \<noteq> [] \<Longrightarrow> fst (dims_of self) * snd (dims_of self) \<noteq> 0"
  proof -
    assume "grid_cells ?Y ?X \<noteq> []"
    then have "length (grid_cells ?Y ?X) \<noteq> 0" by simp
    then have "?Y * ?X \<noteq> 0" by (simp add: length_grid_cells)
    then show ?thesis by (simp add: dims_of_def)
  qed
  show ?thesis
    unfolding transform_map_def Let_def d all_edges_def
    by (rule transform_cells_ok [OF gn nz assms(3)])
qed

lemma distinct_built: "distinct (nodes (built_graph geod_inv self))"
  unfolding built_graph_def by (rule distinct_fold) (simp add: nodes_def)

lemma built_edges:
  "(a, b) \<in> set (edges (built_graph geod_inv self)) \<longleftrightarrow>
   (\<exists>c c'. in_grid (dims_of self) c \<and> c' \<in> set (valid_neighbors (fst c) (snd c) (dims_of self)) \<and>
      a = node_of c \<and> b = node_of c')"
proof -
  have "(a, b) \<in> set (edges (built_graph geod_inv self)) \<longleftrightarrow>
        (\<exists>dd. (a, b, dd) \<in> set (all_edges geod_inv self))"
    unfolding edges_iff [OF distinct_built]
    unfolding built_graph_def edge_data_fold_None by (simp add: edge_data_def)
  then show ?thesis
    unfolding in_all_edges by blast
qed


lemma built_nodes:
  assumes "\<not> (shape0 (currents self) = 1 \<and> shape1 (currents self) = 1)"
  shows "set (nodes (built_graph geod_inv self)) = node_of ` {c. in_grid (dims_of self) c}"
proof -
  let ?E = "set (all_edges geod_inv self)"
  have ne: "\<And>c. in_grid (dims_of self) c \<Longrightarrow>
        \<exists>c'. c' \<in> set (valid_neighbors (fst c) (snd c) (dims_of self))"
  proof -
    fix c assume "in_grid (dims_of self) c"
    then have "in_grid (int (shape0 (currents self)), int (shape1 (currents self))) (fst c, snd c)"
      by (simp add: dims_of_def)
    then have "valid_neighbors (fst c) (snd c) (int (shape0 (currents self)), int (shape1 (currents self))) \<noteq> []"
      by (rule valid_neighbors_nonempty) (use assms in simp)
    then show "\<exists>c'. c' \<in> set (valid_neighbors (fst c) (snd c) (dims_of self))"
      unfolding dims_of_def by (cases "valid_neighbors (fst c) (snd c) (int (shape0 (currents self)), int (shape1 (currents self)))") auto
  qed
  have 1: "fst ` ?E = node_of ` {c. in_grid (dims_of self) c}"
  proof (rule set_eqI)
    fix a
    have "a \<in> fst ` ?E \<longleftrightarrow> (\<exists>b dd. (a, b, dd) \<in> ?E)" by force
    also have "\<dots> \<longleftrightarrow> (\<exists>c. in_grid (dims_of self) c \<and> a = node_of c)"
      unfolding in_all_edges using ne by blast
    finally show "a \<in> fst ` ?E \<longleftrightarrow> a \<in> node_of ` {c. in_grid (dims_of self) c}" by blast
  qed
  have 2: "(\<lambda>e. fst (snd e)) ` ?E \<subseteq> node_of ` {c. in_grid (dims_of self) c}"
  proof
    fix b assume "b \<in> (\<lambda>e. fst (snd e)) ` ?E"
    then obtain a dd where "(a, b, dd) \<in> ?E" by force
    then obtain c c' where "c' \<in> set (valid_neighbors (fst c) (snd c) (dims_of self))" "b = node_of c'"
      unfolding in_all_edges by blast
    then show "b \<in> node_of ` {c. in_grid (dims_of self) c}"
      using valid_neighbors_in_grid by blast
  qed
  show ?thesis
    unfolding built_graph_def nodes_fold using 1 2 by (auto simp: nodes_def)
qed

lemma length_built_edges:
  "length (edges (built_graph geod_inv self)) \<le> 8 * shape0 (currents self) * shape1 (currents self)"
proof -
  have "length (edges (built_graph geod_inv self)) \<le> length (edges []) + length (all_edges geod_inv self)"
    unfolding built_graph_def by (rule length_edges_fold)
  with length_all_edges [of geod_inv self] show ?thesis by (simp add: edges_def)
qed

lemma weight_formula:
  "weight (edge_attributes geod_inv ts (lat_s, lon_s) (fu, fv) (lat_a, lon_a)) =
     (case geod_inv lon_s lat_s lon_a lat_a of (az, back_az, d) \<Rightarrow>
        sqrt (((d / ts) * sin (radians (np_remainder az 360)) - fu)\<^sup>2
            + ((d / ts) * cos (radians (np_remainder az 360)) - fv)\<^sup>2))"
  by (simp add: edge_attributes_def Let_def split: prod.splits)

lemma encode_in_grid:
  assumes "buildable self"
  shows "{n. \<exists>c. in_grid (dims_of self) c \<and> encode_node_id c = Inr n}
         = node_of ` {c. in_grid (dims_of self) c}"
  using encode_node_of [OF in_grid_range(1-4) [OF assms]] by force

lemma buildableI:
  assumes "shape0 (latlons self) = shape0 (currents self)"
    and "shape1 (latlons self) = shape1 (currents self)"
    and "shape0 (currents self) \<le> 4294967296" and "shape1 (currents self) \<le> 4294967296"
  shows "buildable self"
  using assms by (simp add: buildable_def)

lemma encode_iff:
  assumes "buildable self" "in_grid (dims_of self) c"
  shows "encode_node_id c = Inr a \<longleftrightarrow> a = node_of c"
  using encode_node_of [OF in_grid_range(1-4) [OF assms]] by auto

lemma built_edges_adjacent:
  assumes b: "buildable self"
  shows "set (edges (built_graph geod_inv self)) =
         {(a, b). \<exists>c c'. in_grid (dims_of self) c \<and> in_grid (dims_of self) c' \<and> adjacent8 c c' \<and>
                    encode_node_id c = Inr a \<and> encode_node_id c' = Inr b}"
proof (rule set_eqI)
  fix p :: "node_id \<times> node_id"
  obtain a b where p: "p = (a, b)" by (cases p)
  have "(a, b) \<in> set (edges (built_graph geod_inv self)) \<longleftrightarrow>
        (\<exists>c c'. in_grid (dims_of self) c \<and> in_grid (dims_of self) c' \<and> adjacent8 c c' \<and>
                  a = node_of c \<and> b = node_of c')"
    unfolding built_edges set_valid_neighbors by simp
  also have "\<dots> \<longleftrightarrow> (\<exists>c c'. in_grid (dims_of self) c \<and> in_grid (dims_of self) c' \<and> adjacent8 c c' \<and>
                  encode_node_id c = Inr a \<and> encode_node_id c' = Inr b)"
    using encode_iff [OF b] by blast
  finally show "p \<in> set (edges (built_graph geod_inv self)) \<longleftrightarrow>
        p \<in> {(a, b). \<exists>c c'. in_grid (dims_of self) c \<and> in_grid (dims_of self) c' \<and> adjacent8 c c' \<and>
                    encode_node_id c = Inr a \<and> encode_node_id c' = Inr b}"
    by (simp add: p)
qed

lemma built_no_self_loop:
  assumes b: "buildable self" and e: "(a, b) \<in> set (edges (built_graph geod_inv self))"
  shows "a \<noteq> b"
proof
  assume "a = b"
  from e obtain c c' where c: "in_grid (dims_of self) c" "in_grid (dims_of self) c'" "adjacent8 c c'"
      "encode_node_id c = Inr a" "encode_node_id c' = Inr b"
    unfolding built_edges_adjacent [OF b] by blast
  have "node_of c = node_of c'"
    using c(4,5) \<open>a = b\<close> by (simp add: node_of_def)
  then have "c = c'"
    by (rule node_of_inj [OF in_grid_range(1-4) [OF b c(1)] in_grid_range(1-4) [OF b c(2)]])
  with c(3) show False by (simp add: adjacent8_def)
qed

text \<open>
  Claim C5, as the code has it: for a grid of \<open>Y\<close> by \<open>X\<close> cells other than the grid
  of a single cell, with at most \<open>2^32\<close> rows and columns, and with a standard output
  that takes the progress bar when the engine is verbose, \<open>_transform_map\<close> returns a
  graph whose nodes are exactly the identifiers of the cells of the grid, each once,
  whose edges are exactly the pairs of king-move adjacent cells of the grid, none of
  them a self-loop, at most \<open>8 * Y * X\<close> in number. The timestep may be any number.
\<close>

theorem transform_map_graph:
  assumes "shape0 (latlons self) = shape0 (currents self)"
    and "shape1 (latlons self) = shape1 (currents self)"
    and "shape0 (currents self) \<le> 4294967296" and "shape1 (currents self) \<le> 4294967296"
    and "\<not> (shape0 (currents self) = 1 \<and> shape1 (currents self) = 1)"
    and "\<And>s. verbose self \<Longrightarrow> stdout_write s = None"
  shows "\<exists>g. snd (transform_map stdout_write geod_inv self) = Inr g \<and>
           set (nodes g) = {n. \<exists>c. in_grid (dims_of self) c \<and> encode_node_id c = Inr n} \<and>
           distinct (nodes g) \<and>
           set (edges g) =
             {(a, b). \<exists>c c'. in_grid (dims_of self) c \<and> in_grid (dims_of self) c' \<and> adjacent8 c c' \<and>
                        encode_node_id c = Inr a \<and> encode_node_id c' = Inr b} \<and>
           (\<forall>(a, b) \<in> set (edges g). a \<noteq> b) \<and>
           length (edges g) \<le> 8 * shape0 (currents self) * shape1 (currents self)"
proof -
  have b: "buildable self" by (rule buildableI [OF assms(1-4)])
  let ?g = "built_graph geod_inv self"
  have 1: "snd (transform_map stdout_write geod_inv self) = Inr ?g"
    unfolding built_graph_def by (rule transform_map_ok [OF b assms(5,6)])
  have 2: "set (nodes ?g) = {n. \<exists>c. in_grid (dims_of self) c \<and> encode_node_id c = Inr n}"
    unfolding encode_in_grid [OF b] by (rule built_nodes [OF assms(5)])
  have 3: "\<forall>(a, b) \<in> set (edges ?g). a \<noteq> b"
    using built_no_self_loop [OF b] by blast
  show ?thesis
    by (intro exI [of _ ?g] conjI 1 2 3 distinct_built built_edges_adjacent [OF b]
        length_built_edges)
qed
subsection \<open>Examples of the graph\<close>

lemma example_engine_simps:
  "shape0 (latlons (example_engine Y X k)) = Y" "shape1 (latlons (example_engine Y X k)) = X"
  "shape0 (currents (example_engine Y X k)) = Y" "shape1 (currents (example_engine Y X k)) = X"
  "timestep (example_engine Y X k) = 1"
  "verbose (example_engine Y X k) = False"
  "coord_at (example_engine Y X k) c = (real (nat (fst c)), real (nat (snd c)))"
  "flow_at (example_engine Y X k) c = (0, k * real (nat (fst c)))"
  "dims_of (example_engine Y X k) = (int Y, int X)"
  by (simp_all add: example_engine_def example_grid_def example_flow_def coord_at_def flow_at_def
      dims_of_def)

theorem transform_map_graph_witness:
  "\<exists>g. snd (transform_map utf8_stdout example_geod ((example_engine 1 2 0)\<lparr>verbose := True\<rparr>)) = Inr g \<and>
       set (nodes g) = {n. \<exists>c. in_grid (1, 2) c \<and> encode_node_id c = Inr n} \<and>
       distinct (nodes g) \<and>
       set (edges g) =
         {(a, b). \<exists>c c'. in_grid (1, 2) c \<and> in_grid (1, 2) c' \<and> adjacent8 c c' \<and>
                    encode_node_id c = Inr a \<and> encode_node_id c' = Inr b} \<and>
       (\<forall>(a, b) \<in> set (edges g). a \<noteq> b) \<and>
       length (edges g) \<le> 8 * 1 * 2"
  using transform_map_graph [of "(example_engine 1 2 0)\<lparr>verbose := True\<rparr>" utf8_stdout example_geod]
  by (simp add: example_engine_simps dims_of_def utf8_stdout_def)

lemma ascii_rejects_bar:
  assumes "0 < (50 * iteration) div total_n"
  shows "ascii_stdout (progress_line iteration total_n) = Some UnicodeEncodeError"
proof -
  have "CHR 0xE2 \<in> set (progress_line iteration total_n)"
    using assms by (simp add: progress_line_def Let_def fill_default_def)
  moreover have "128 \<le> (of_char (CHR 0xE2) :: nat)" by simp
  ultimately have "\<exists>c \<in> set (progress_line iteration total_n). 128 \<le> (of_char c :: nat)"
    by (rule bexI [rotated])
  then show ?thesis by (simp add: ascii_stdout_def)
qed

lemma transform_map_ascii_verbose:
  "snd (transform_map ascii_stdout geod_inv ((example_engine 2 1 k)\<lparr>verbose := True\<rparr>))
   = Inl UnicodeEncodeError"
proof -
  have "ascii_stdout (progress_line 1 2) = Some UnicodeEncodeError"
    by (rule ascii_rejects_bar) simp
  then have "print_progress_bar ascii_stdout 1 2 = Inl UnicodeEncodeError"
    by (simp add: print_progress_bar_def)
  moreover have "grid_cells 2 1 = [(0, 0), (1, 0)]"
    by (simp add: grid_cells_def upt_rec)
  ultimately show ?thesis
    by (simp add: transform_map_def example_engine_def example_grid_def example_flow_def)
qed

text \<open>
  The grid of one cell: the only cell has no valid neighbour, \<open>coords_adj\<close> is an empty
  array and indexing its second dimension raises \<open>IndexError\<close>; no graph is built. And
  on a standard output that encodes ASCII only, the verbose builder raises
  \<open>UnicodeEncodeError\<close> at the first progress bar that has a filled part (here at the
  first of two cells).
\<close>

theorem transform_map_1x1_counterexample:
  "snd (transform_map utf8_stdout example_geod (example_engine 1 1 0)) = Inl IndexError \<and>
   snd (transform_map ascii_stdout example_geod ((example_engine 2 1 0)\<lparr>verbose := True\<rparr>))
     = Inl UnicodeEncodeError"
proof
  show "snd (transform_map utf8_stdout example_geod (example_engine 1 1 0)) = Inl IndexError"
    by (simp add: transform_map_def grid_cells_def get_neighbors_def encode_node_id_def pack_I_def
        getitem_def norm_index_def valid_neighbors_def neighbors_def example_engine_def
        example_grid_def example_flow_def)
  show "snd (transform_map ascii_stdout example_geod ((example_engine 2 1 0)\<lparr>verbose := True\<rparr>))
        = Inl UnicodeEncodeError"
    by (rule transform_map_ascii_verbose)
qed



lemma example_buildable: "Y \<le> 4294967296 \<Longrightarrow> X \<le> 4294967296 \<Longrightarrow> buildable (example_engine Y X k)"
  by (simp add: buildable_def example_engine_simps)

lemma example_built:
  assumes "Y \<le> 4294967296" "X \<le> 4294967296" "\<not> (Y = 1 \<and> X = 1)"
  shows "snd (transform_map stdout_write geod_inv (example_engine Y X k))
         = Inr (built_graph geod_inv (example_engine Y X k))"
  unfolding built_graph_def
  by (rule transform_map_ok [OF example_buildable [OF assms(1,2)]])
     (use assms(3) in \<open>simp_all add: example_engine_simps\<close>)

lemma in_grid_encode_eq:
  assumes "buildable self" "in_grid (dims_of self) c" "in_grid (dims_of self) k"
    "encode_node_id c = Inr n" "encode_node_id k = Inr n"
  shows "c = k"
proof -
  have "node_of c = node_of k" using assms(4,5) by (simp add: node_of_def)
  then show ?thesis
    by (rule node_of_inj [OF in_grid_range(1-4) [OF assms(1,2)] in_grid_range(1-4) [OF assms(1,3)]])
qed
subsection \<open>The engine: progress output, updates, degenerate queries\<close>

lemma get_neighbors_verbose [simp]:
  "get_neighbors geod_inv (self\<lparr>verbose := b\<rparr>) = get_neighbors geod_inv self"
  by (simp add: get_neighbors_def fun_eq_iff cong: sum.case_cong if_cong)

lemma transform_cells_verbose:
  assumes "cs \<noteq> [] \<Longrightarrow> fst dims * snd dims \<noteq> 0" and "\<And>s. stdout_write s = None"
  shows "snd (transform_cells stdout_write geod_inv (self\<lparr>verbose := True\<rparr>) dims cs idx out g)
         = snd (transform_cells stdout_write geod_inv (self\<lparr>verbose := False\<rparr>) dims cs idx' out' g)"
  using assms(1)
proof (induction cs arbitrary: idx out idx' out' g)
  case Nil
  then show ?case by simp
next
  case (Cons c cs)
  obtain y x where c: "c = (y, x)" by (cases c)
  have nz: "fst dims * snd dims \<noteq> 0" using Cons.prems by simp
  obtain line where line: "print_progress_bar stdout_write (idx + 1) (fst dims * snd dims) = Inr line"
    using print_progress_bar_ok [of stdout_write, OF assms(2) nz] by blast
  show ?case
  proof (cases "get_neighbors geod_inv self y x dims")
    case (Inl e)
    then show ?thesis by (simp add: c line)
  next
    case (Inr ns)
    have "snd (transform_cells stdout_write geod_inv (self\<lparr>verbose := True\<rparr>) dims cs (idx + 1)
                 (out @ line) (add_edges_from ns g))
          = snd (transform_cells stdout_write geod_inv (self\<lparr>verbose := False\<rparr>) dims cs idx' out'
                 (add_edges_from ns g))"
      by (rule Cons.IH) (use nz in simp)
    then show ?thesis by (simp add: c line Inr)
  qed
qed

lemma transform_cells_quiet:
  "fst (transform_cells stdout_write geod_inv (self\<lparr>verbose := False\<rparr>) dims cs idx out g) = out"
proof (induction cs arbitrary: idx out g)
  case Nil
  then show ?case by simp
next
  case (Cons c cs)
  obtain y x where c: "c = (y, x)" by (cases c)
  show ?case
    by (cases "get_neighbors geod_inv self y x dims") (simp_all add: c Cons.IH)
qed

lemma grid_cells_nonempty: "grid_cells Y X \<noteq> [] \<Longrightarrow> int Y * int X \<noteq> 0"
proof -
  assume "grid_cells Y X \<noteq> []"
  then have "length (grid_cells Y X) \<noteq> 0" by simp
  then show ?thesis by (simp add: length_grid_cells)
qed

lemma transform_map_verbose:
  assumes "\<And>s. stdout_write s = None"
  shows "snd (transform_map stdout_write geod_inv (self\<lparr>verbose := True\<rparr>))
         = snd (transform_map stdout_write geod_inv (self\<lparr>verbose := False\<rparr>))"
  unfolding transform_map_def Let_def
  using transform_cells_verbose [where cs = "grid_cells (shape0 (currents self)) (shape1 (currents self))"
      and dims = "(int (shape0 (currents self)), int (shape1 (currents self)))"
      and stdout_write = stdout_write and geod_inv = geod_inv and self = self
      and idx = 0 and out = "[]" and g = "[]" and idx' = 0 and out' = "[]", OF _ assms]
    grid_cells_nonempty [of "shape0 (currents self)" "shape1 (currents self)"]
  by simp

lemma transform_map_quiet:
  "fst (transform_map stdout_write geod_inv (self\<lparr>verbose := False\<rparr>)) = []"
  unfolding transform_map_def Let_def by (simp add: transform_cells_quiet)

lemma build_tree_cong: "latlons a = latlons b \<Longrightarrow> build_tree a = build_tree b"
  by (simp add: build_tree_def)

lemma queries_verbose:
  "get_next_azimuth (self\<lparr>verbose := b\<rparr>) p q = get_next_azimuth self p q"
  "get_current (self\<lparr>verbose := b\<rparr>) p = get_current self p"
  by (simp_all add: get_next_azimuth_def get_current_def geo_idx_def
      cong: sum.case_cong if_cong option.case_cong)

lemma init_after_transform_map:
  "snd (init stdout_write geod_inv ts ll cu vb) =
     (case snd (transform_map stdout_write geod_inv
                  \<lparr>latlons = ll, currents = cu, timestep = ts, verbose = vb, nav_graph = [],
                   kdtree = []\<rparr>) of
        Inl e \<Rightarrow> Inl e
      | Inr g \<Rightarrow>
          (case build_tree \<lparr>latlons = ll, currents = cu, timestep = ts, verbose = vb,
                            nav_graph = g, kdtree = []\<rparr> of
             Inl e \<Rightarrow> Inl e
           | Inr t \<Rightarrow> Inr \<lparr>latlons = ll, currents = cu, timestep = ts, verbose = vb,
                            nav_graph = g, kdtree = t\<rparr>))"
  by (simp add: init_def Let_def split: prod.splits sum.splits)

lemma init_verbose:
  assumes "\<And>s. stdout_write s = None"
  shows "snd (init stdout_write geod_inv ts ll cu True)
         = map_sum id (\<lambda>e. e\<lparr>verbose := True\<rparr>) (snd (init stdout_write geod_inv ts ll cu False))"
proof -
  let ?s = "\<lparr>latlons = ll, currents = cu, timestep = ts, verbose = False, nav_graph = [], kdtree = []\<rparr>"
  have t: "\<lparr>latlons = ll, currents = cu, timestep = ts, verbose = True, nav_graph = [], kdtree = []\<rparr>
           = ?s\<lparr>verbose := True\<rparr>" by simp
  have eq: "snd (transform_map stdout_write geod_inv (?s\<lparr>verbose := True\<rparr>))
            = snd (transform_map stdout_write geod_inv ?s)"
    using transform_map_verbose [of stdout_write geod_inv ?s, OF assms] by simp
  have bt: "\<And>g. build_tree \<lparr>latlons = ll, currents = cu, timestep = ts, verbose = True,
                         nav_graph = g, kdtree = []\<rparr>
                 = build_tree \<lparr>latlons = ll, currents = cu, timestep = ts, verbose = False,
                         nav_graph = g, kdtree = []\<rparr>"
    by (rule build_tree_cong) simp
  show ?thesis
    unfolding init_after_transform_map t eq
    by (simp add: bt split: sum.splits)
qed

lemma example_navigator_simps:
  "latlons (example_navigator Y X k) = example_grid Y X"
  "currents (example_navigator Y X k) = example_flow Y X k"
  "timestep (example_navigator Y X k) = 1"
  "nav_graph (example_navigator Y X k) = built_graph example_geod (example_engine Y X k)"
  "kdtree (example_navigator Y X k) = concat (map (\<lambda>y. map (\<lambda>x. (real y, real x)) [0..<X]) [0..<Y])"
  by (simp_all add: example_navigator_def example_engine_def)

lemma init_example:
  assumes "Y \<le> 4294967296" "X \<le> 4294967296" "\<not> (Y = 1 \<and> X = 1)" "0 < Y" "0 < X"
  shows "init stdout_write example_geod 1 (example_grid Y X) (example_flow Y X k) False
         = ([], Inr (example_navigator Y X k))"
proof -
  let ?s = "\<lparr>latlons = example_grid Y X, currents = example_flow Y X k, timestep = 1,
             verbose = False, nav_graph = [], kdtree = []\<rparr>"
  have s: "?s = example_engine Y X k" by (simp add: example_engine_def)
  have q: "example_engine Y X k = (example_engine Y X k)\<lparr>verbose := False\<rparr>"
    by (simp add: example_engine_def)
  have 1: "snd (transform_map stdout_write example_geod (example_engine Y X k))
           = Inr (built_graph example_geod (example_engine Y X k))"
    by (rule example_built [OF assms(1-3)])
  have 2: "fst (transform_map stdout_write example_geod (example_engine Y X k)) = []"
    using transform_map_quiet [where stdout_write = stdout_write and geod_inv = example_geod
        and self = "example_engine Y X k"] q by simp
  have tm: "transform_map stdout_write example_geod (example_engine Y X k)
            = ([], Inr (built_graph example_geod (example_engine Y X k)))"
    using 1 2 by (simp add: prod_eq_iff)
  have ne: "concat (map (\<lambda>y. map (\<lambda>x. (real y, real x)) [0..<X]) [0..<Y]) \<noteq> []"
  proof -
    have "length (concat (map (\<lambda>y. map (\<lambda>x. (real y, real x)) [0..<X]) [0..<Y])) = Y * X"
      by (simp add: length_concat comp_def sum_list_triv)
    with assms(4,5) show ?thesis by auto
  qed
  have bt: "build_tree ((example_engine Y X k)\<lparr>nav_graph := built_graph example_geod (example_engine Y X k)\<rparr>)
            = Inr (concat (map (\<lambda>y. map (\<lambda>x. (real y, real x)) [0..<X]) [0..<Y]))"
    using ne by (simp add: build_tree_def example_engine_def example_grid_def)
  show ?thesis
    unfolding init_def Let_def s tm
    by (simp add: bt example_navigator_def)
qed

text \<open>
  Claim C10, as the code has it. When the standard output takes every text, the graph
  (or the exception) that \<open>_transform_map\<close> ends with is the same with \<open>verbose\<close> set
  and unset, and the engines that \<open>__init__\<close> returns differ in the flag only. Nothing
  is printed when the flag is unset, and no query reads the flag.
\<close>

theorem verbose_no_influence:
  assumes "\<And>s. stdout_write s = None"
  shows "snd (transform_map stdout_write geod_inv (self\<lparr>verbose := True\<rparr>))
           = snd (transform_map stdout_write geod_inv (self\<lparr>verbose := False\<rparr>)) \<and>
         fst (transform_map stdout_write geod_inv (self\<lparr>verbose := False\<rparr>)) = [] \<and>
         snd (init stdout_write geod_inv ts ll cu True)
           = map_sum id (\<lambda>e. e\<lparr>verbose := True\<rparr>) (snd (init stdout_write geod_inv ts ll cu False)) \<and>
         get_next_azimuth (self\<lparr>verbose := b\<rparr>) p q = get_next_azimuth self p q \<and>
         get_current (self\<lparr>verbose := b\<rparr>) p = get_current self p"
  by (intro conjI transform_map_verbose [of stdout_write, OF assms] transform_map_quiet
      init_verbose [of stdout_write, OF assms] queries_verbose)

theorem verbose_no_influence_witness:
  "snd (transform_map utf8_stdout example_geod ((example_engine 2 1 0)\<lparr>verbose := True\<rparr>))
     = snd (transform_map utf8_stdout example_geod ((example_engine 2 1 0)\<lparr>verbose := False\<rparr>)) \<and>
   fst (transform_map utf8_stdout example_geod ((example_engine 2 1 0)\<lparr>verbose := False\<rparr>)) = [] \<and>
   snd (init utf8_stdout example_geod 1 (example_grid 2 1) (example_flow 2 1 0) True)
     = map_sum id (\<lambda>e. e\<lparr>verbose := True\<rparr>)
         (snd (init utf8_stdout example_geod 1 (example_grid 2 1) (example_flow 2 1 0) False)) \<and>
   get_next_azimuth ((example_engine 2 1 0)\<lparr>verbose := True\<rparr>) (0, 0) (1, 0)
     = get_next_azimuth (example_engine 2 1 0) (0, 0) (1, 0) \<and>
   get_current ((example_engine 2 1 0)\<lparr>verbose := True\<rparr>) (0, 0)
     = get_current (example_engine 2 1 0) (0, 0)"
  using verbose_no_influence [where stdout_write = utf8_stdout and geod_inv = example_geod
      and self = "example_engine 2 1 0" and ts = 1 and ll = "example_grid 2 1"
      and cu = "example_flow 2 1 0" and b = True and p = "(0, 0)" and q = "(1, 0)"]
  by (simp add: utf8_stdout_def)

text \<open>
  On a standard output that encodes ASCII only, the first progress bar of the grid of
  two rows and one column is half filled with the character U+2588 and writing it
  raises \<open>UnicodeEncodeError\<close>: with the flag set neither \<open>_transform_map\<close> nor
  \<open>__init__\<close> returns, with the flag unset both do.
\<close>

theorem verbose_ascii_stdout_counterexample:
  "snd (transform_map ascii_stdout example_geod ((example_engine 2 1 0)\<lparr>verbose := True\<rparr>))
     = Inl UnicodeEncodeError \<and>
   snd (transform_map ascii_stdout example_geod ((example_engine 2 1 0)\<lparr>verbose := False\<rparr>))
     = Inr (built_graph example_geod (example_engine 2 1 0)) \<and>
   snd (init ascii_stdout example_geod 1 (example_grid 2 1) (example_flow 2 1 0) True)
     = Inl UnicodeEncodeError \<and>
   snd (init ascii_stdout example_geod 1 (example_grid 2 1) (example_flow 2 1 0) False)
     = Inr (example_navigator 2 1 0)"
proof -
  have q: "(example_engine 2 1 0)\<lparr>verbose := False\<rparr> = example_engine 2 1 0"
    by (simp add: example_engine_def)
  have 1: "snd (transform_map ascii_stdout example_geod ((example_engine 2 1 0)\<lparr>verbose := True\<rparr>))
           = Inl UnicodeEncodeError"
    by (rule transform_map_ascii_verbose)
  have 2: "snd (transform_map ascii_stdout example_geod ((example_engine 2 1 0)\<lparr>verbose := False\<rparr>))
           = Inr (built_graph example_geod (example_engine 2 1 0))"
    unfolding q by (rule example_built) simp_all
  have t: "\<lparr>latlons = example_grid 2 1, currents = example_flow 2 1 0, timestep = 1, verbose = True,
            nav_graph = [], kdtree = []\<rparr> = (example_engine 2 1 0)\<lparr>verbose := True\<rparr>"
    by (simp add: example_engine_def)
  have 3: "snd (init ascii_stdout example_geod 1 (example_grid 2 1) (example_flow 2 1 0) True)
           = Inl UnicodeEncodeError"
    unfolding init_after_transform_map t 1 by simp
  have 4: "snd (init ascii_stdout example_geod 1 (example_grid 2 1) (example_flow 2 1 0) False)
           = Inr (example_navigator 2 1 0)"
    using init_example [where Y = 2 and X = 1 and stdout_write = ascii_stdout and k = 0] by simp
  show ?thesis by (intro conjI 1 2 3 4)
qed

lemma set_currents_map_kdtree:
  "kdtree (snd (snd (set_currents_map stdout_write geod_inv self ll cu))) = kdtree self"
  by (cases "transform_map stdout_write geod_inv (self\<lparr>latlons := ll, currents := cu\<rparr>)")
     (auto simp: set_currents_map_def Let_def split: sum.splits)

text \<open>
  Claim C1 fails on the code: \<open>set_currents_map\<close> rebuilds the graph and leaves the
  tree as it was. In the example the engine is built over the coordinates \<open>(0, 0)\<close> and
  \<open>(1, 0)\<close> and then given the coordinates \<open>(10, 0)\<close> and \<open>(11, 0)\<close>. The query
  point \<open>(10, 0)\<close> is the new coordinate of cell \<open>(0, 0)\<close>, but the tree of the old
  coordinates resolves it to cell \<open>(1, 0)\<close>, so \<open>get_current\<close> answers the flow of
  the wrong cell.
\<close>

theorem set_currents_map_stale_index:
  "init utf8_stdout example_geod 1 (example_grid 2 1) (example_flow 2 1 1) False
     = ([], Inr (example_navigator 2 1 1)) \<and>
   (case set_currents_map utf8_stdout example_geod (example_navigator 2 1 1)
           (example_grid_shifted 2 1 10) (example_flow 2 1 1) of
      (out, exc, self') \<Rightarrow>
        exc = None \<and>
        kdtree self' = [(0, 0), (1, 0)] \<and>
        build_tree self' = Inr [(10, 0), (11, 0)] \<and>
        geo_idx self' (10, 0) = Inr (1, 0) \<and>
        getitem (latlons self') 0 0 = Inr (10, 0) \<and>
        getitem (latlons self') 1 0 = Inr (11, 0) \<and>
        get_current self' (10, 0) = Inr (0, 1) \<and>
        getitem (currents self') 0 0 = Inr (0, 0))"
proof -
  let ?e0 = "example_navigator 2 1 1"
  let ?s = "?e0\<lparr>latlons := example_grid_shifted 2 1 10, currents := example_flow 2 1 1\<rparr>"
  have i: "init utf8_stdout example_geod 1 (example_grid 2 1) (example_flow 2 1 1) False = ([], Inr ?e0)"
    by (rule init_example) simp_all
  have b: "buildable ?s"
    by (simp add: buildable_def example_navigator_simps example_grid_shifted_def example_flow_def)
  have n11: "\<not> (shape0 (currents ?s) = 1 \<and> shape1 (currents ?s) = 1)"
    by (simp add: example_flow_def)
  have q: "?s = ?s\<lparr>verbose := False\<rparr>"
    by (simp add: example_navigator_def example_engine_def)
  have vb: "\<And>s. verbose ?s \<Longrightarrow> utf8_stdout s = None" by (simp add: utf8_stdout_def)
  have 1: "snd (transform_map utf8_stdout example_geod ?s) = Inr (built_graph example_geod ?s)"
    unfolding built_graph_def by (rule transform_map_ok [OF b n11 vb])
  have 2: "fst (transform_map utf8_stdout example_geod ?s) = []"
    using transform_map_quiet [where stdout_write = utf8_stdout and geod_inv = example_geod
        and self = ?s] q by simp
  have tm: "transform_map utf8_stdout example_geod ?s = ([], Inr (built_graph example_geod ?s))"
    using 1 2 by (simp add: prod_eq_iff)
  have sc: "set_currents_map utf8_stdout example_geod ?e0 (example_grid_shifted 2 1 10) (example_flow 2 1 1)
            = ([], None, ?s\<lparr>nav_graph := built_graph example_geod ?s\<rparr>)"
    unfolding set_currents_map_def Let_def tm by simp
  let ?e1 = "?s\<lparr>nav_graph := built_graph example_geod ?s\<rparr>"
  have u2: "[0..<2] = [0, 1]" by (simp add: upt_rec)
  have k: "kdtree ?e1 = [(0, 0), (1, 0)]"
    by (simp add: example_navigator_simps u2)
  have bt: "build_tree ?e1 = Inr [(10, 0), (11, 0)]"
    by (simp add: build_tree_def example_grid_shifted_def u2)
  have g: "geo_idx ?e1 (10, 0) = Inr (1, 0)"
    by (simp add: geo_idx_def example_navigator_simps u2 query_def sqdist_def unravel_index_def
        example_grid_shifted_def)
  have l0: "getitem (latlons ?e1) 0 0 = Inr (10, 0)" and l1: "getitem (latlons ?e1) 1 0 = Inr (11, 0)"
    by (simp_all add: getitem_def norm_index_def example_grid_shifted_def)
  have c0: "getitem (currents ?e1) 0 0 = Inr (0, 0)" and c1: "getitem (currents ?e1) 1 0 = Inr (0, 1)"
    by (simp_all add: getitem_def norm_index_def example_flow_def)
  have gc: "get_current ?e1 (10, 0) = Inr (0, 1)"
    unfolding get_current_def g using c1 by simp
  show ?thesis
    unfolding sc using i k bt g l0 l1 gc c0 by simp
qed

lemma dijkstra_path_same:
  "dijkstra_path g n n = (if n \<in> set (nodes g) then Inr [n] else Inl NodeNotFound)"
  by (simp add: dijkstra_path_def)

text \<open>
  Claim C4, as the code has it: when both positions resolve to the same cell the query
  returns no result. \<open>dijkstra_path\<close> answers the path of that one node, and reading
  its second element raises \<open>IndexError\<close> (when the cell has an identifier and that is
  a node of the graph); the code has no error of its own for this case.
\<close>

theorem same_cell_query:
  assumes "geo_idx self geo_pos = Inr c" "geo_idx self geo_dest = Inr c"
  shows "(\<exists>e. get_next_azimuth self geo_pos geo_dest = Inl e) \<and>
         (\<forall>n. encode_node_id c = Inr n \<and> n \<in> set (nodes (nav_graph self))
              \<longrightarrow> get_next_azimuth self geo_pos geo_dest = Inl IndexError)"
proof (cases "encode_node_id c")
  case (Inl e)
  then show ?thesis by (simp add: get_next_azimuth_def assms)
next
  case (Inr n)
  then show ?thesis
    by (simp add: get_next_azimuth_def assms dijkstra_path_same)
qed

lemma example_geo_idx_2x1:
  "geo_idx (example_navigator 2 1 k) (0, 0) = Inr (0, 0)"
  "geo_idx (example_navigator 2 1 k) (1, 0) = Inr (1, 0)"
  by (simp_all add: geo_idx_def example_navigator_simps upt_rec query_def sqdist_def
      unravel_index_def example_grid_def)

lemma example_node_in_graph:
  assumes "Y \<le> 4294967296" "X \<le> 4294967296" "\<not> (Y = 1 \<and> X = 1)"
    and "in_grid (int Y, int X) c"
  shows "encode_node_id c = Inr (node_of c)"
    and "node_of c \<in> set (nodes (nav_graph (example_navigator Y X k)))"
proof -
  have b: "buildable (example_engine Y X k)" by (rule example_buildable [OF assms(1,2)])
  have g: "in_grid (dims_of (example_engine Y X k)) c"
    using assms(4) by (simp add: example_engine_simps)
  show "encode_node_id c = Inr (node_of c)"
    using encode_iff [OF b g] by simp
  have "set (nodes (built_graph example_geod (example_engine Y X k)))
        = node_of ` {c. in_grid (dims_of (example_engine Y X k)) c}"
    by (rule built_nodes) (use assms(3) in \<open>simp add: example_engine_simps\<close>)
  then show "node_of c \<in> set (nodes (nav_graph (example_navigator Y X k)))"
    using g by (simp add: example_navigator_simps)
qed

theorem same_cell_query_witness:
  "get_next_azimuth (example_navigator 2 1 0) (1, 0) (1, 0) = Inl IndexError"
proof -
  have g: "in_grid (int 2, int 1) (1, 0)" by (simp add: in_grid_def)
  have "encode_node_id (1, 0) = Inr (node_of (1, 0)) \<and>
        node_of (1, 0) \<in> set (nodes (nav_graph (example_navigator 2 1 0)))"
    using example_node_in_graph(1) [OF _ _ _ g] example_node_in_graph(2) [OF _ _ _ g, of 0]
    by simp
  then show ?thesis
    using same_cell_query [OF example_geo_idx_2x1(2) example_geo_idx_2x1(2), of 0] by blast
qed

text \<open>
  On the engine built for the grid of two rows and one column, the query from the
  coordinate of cell \<open>(0, 0)\<close> to itself ends in \<open>IndexError\<close>.
\<close>

theorem same_cell_query_counterexample:
  "init utf8_stdout example_geod 1 (example_grid 2 1) (example_flow 2 1 0) False
     = ([], Inr (example_navigator 2 1 0)) \<and>
   geo_idx (example_navigator 2 1 0) (0, 0) = Inr (0, 0) \<and>
   get_next_azimuth (example_navigator 2 1 0) (0, 0) (0, 0) = Inl IndexError"
proof -
  have i: "init utf8_stdout example_geod 1 (example_grid 2 1) (example_flow 2 1 0) False
     = ([], Inr (example_navigator 2 1 0))"
    by (rule init_example) simp_all
  have g: "in_grid (int 2, int 1) (0, 0)" by (simp add: in_grid_def)
  have n: "encode_node_id (0, 0) = Inr (node_of (0, 0))"
       "node_of (0, 0) \<in> set (nodes (nav_graph (example_navigator 2 1 0)))"
    using example_node_in_graph(1) [OF _ _ _ g] example_node_in_graph(2) [OF _ _ _ g, of 0]
    by simp_all
  have "get_next_azimuth (example_navigator 2 1 0) (0, 0) (0, 0) = Inl IndexError"
    using example_geo_idx_2x1(1) [of 0] n
    by (simp add: get_next_azimuth_def dijkstra_path_same)
  with i example_geo_idx_2x1(1) [of 0] show ?thesis by simp
qed
subsection \<open>Shortest paths: unreachable and missing nodes\<close>

lemma set_heappush: "set (heappush a h) = insert a (set h)"
  by (induction h) auto

lemma sorted_heappush:
  "sorted_wrt (\<lambda>a b. fst a \<le> fst b) h \<Longrightarrow> sorted_wrt (\<lambda>a b. fst a \<le> fst b) (heappush a h)"
proof (induction h)
  case Nil
  then show ?case by simp
next
  case (Cons b h)
  show ?case
  proof (cases "key_less a b")
    case True
    then have "fst a \<le> fst b" by (auto simp: key_less_def)
    with Cons.prems True show ?thesis by (auto intro: order_trans)
  next
    case False
    then have "fst b \<le> fst a" by (auto simp: key_less_def)
    with Cons False show ?thesis by (auto simp: set_heappush)
  qed
qed

lemma reachable_step: "reachable g s v \<Longrightarrow> (v, u) \<in> set (edges g) \<Longrightarrow> reachable g s u"
  unfolding reachable_def by (rule rtrancl_into_rtrancl)

lemma fringe_ok_push:
  assumes "fringe_ok g source L paths fringe"
    and "u \<in> fst ` set g" "L u \<le> d" "reachable g source u"
  shows "fringe_ok g source L (paths(u \<mapsto> p)) (heappush (d, c, u) fringe)"
  using assms unfolding fringe_ok_def
  by (auto simp: set_heappush sorted_heappush)

lemma relax_ok:
  assumes "succs_ok g L v succs"
    and "\<And>u d'. dists u = Some d' \<Longrightarrow> d' \<le> dv"
    and "L v \<le> dv" and "reachable g source v"
    and "paths v \<noteq> None"
    and "fringe_ok g source L paths fringe"
    and "\<forall>(d, k, x) \<in> set fringe. dv \<le> d"
  shows "\<exists>seen' paths' fringe' c'.
           relax dists v dv succs (seen, paths, fringe, c) = Inr (seen', paths', fringe', c') \<and>
           fringe_ok g source L paths' fringe' \<and>
           (\<forall>(d, k, x) \<in> set fringe'. dv \<le> d) \<and>
           (\<lambda>a. snd (snd a)) ` set fringe \<subseteq> (\<lambda>a. snd (snd a)) ` set fringe' \<and>
           (\<forall>W. seen target = Some W \<and> W \<le> L target
                \<longrightarrow> seen' target = Some W \<and> paths' target = paths target)"
  using assms
proof (induction succs arbitrary: seen paths fringe c)
  case Nil
  then show ?case by simp
next
  case (Cons a succs)
  obtain u e where a: "a = (u, e)" by (cases a)
  have ue: "u \<in> fst ` set g" "0 \<le> weight e" "L u \<le> L v + weight e" "(v, u) \<in> set (edges g)"
    using Cons.prems(1) by (auto simp: succs_ok_def a)
  have so: "succs_ok g L v succs"
    using Cons.prems(1) by (simp add: succs_ok_def)
  have rest: "\<And>seen1 paths1 fringe1 c1.
        paths1 v \<noteq> None \<Longrightarrow> fringe_ok g source L paths1 fringe1 \<Longrightarrow>
        \<forall>(d, k, x) \<in> set fringe1. dv \<le> d \<Longrightarrow>
        \<exists>seen' paths' fringe' c'.
           relax dists v dv succs (seen1, paths1, fringe1, c1) = Inr (seen', paths', fringe', c') \<and>
           fringe_ok g source L paths' fringe' \<and>
           (\<forall>(d, k, x) \<in> set fringe'. dv \<le> d) \<and>
           (\<lambda>a. snd (snd a)) ` set fringe1 \<subseteq> (\<lambda>a. snd (snd a)) ` set fringe' \<and>
           (\<forall>W. seen1 target = Some W \<and> W \<le> L target
                \<longrightarrow> seen' target = Some W \<and> paths' target = paths1 target)"
    by (rule Cons.IH [OF so Cons.prems(2) Cons.prems(3) Cons.prems(4)])
  let ?vu = "dv + weight e"
  show ?case
  proof (cases "dists u")
    case (Some ud)
    then have "\<not> ?vu < ud" using Cons.prems(2) [OF Some] ue(2) by simp
    then have eq: "relax dists v dv (a # succs) (seen, paths, fringe, c)
               = relax dists v dv succs (seen, paths, fringe, c)"
      by (simp add: a Some)
    show ?thesis
      unfolding eq by (rule rest [OF Cons.prems(5) Cons.prems(6) Cons.prems(7)])
  next
    case None
    show ?thesis
    proof (cases "case seen u of None \<Rightarrow> True | Some s \<Rightarrow> ?vu < s")
      case False
      then have eq: "relax dists v dv (a # succs) (seen, paths, fringe, c)
               = relax dists v dv succs (seen, paths, fringe, c)"
        by (simp add: a None)
      show ?thesis
        unfolding eq by (rule rest [OF Cons.prems(5) Cons.prems(6) Cons.prems(7)])
    next
      case True
      obtain pv where pv: "paths v = Some pv" using Cons.prems(5) by auto
      let ?seen1 = "seen(u \<mapsto> ?vu)" and ?paths1 = "paths(u \<mapsto> pv @ [u])"
      let ?fringe1 = "heappush (?vu, c, u) fringe"
      have eq: "relax dists v dv (a # succs) (seen, paths, fringe, c)
               = relax dists v dv succs (?seen1, ?paths1, ?fringe1, c + 1)"
        using True by (simp add: a None pv Let_def)
      have lu: "L u \<le> ?vu" using ue(3) Cons.prems(3) by linarith
      have ru: "reachable g source u" by (rule reachable_step [OF Cons.prems(4) ue(4)])
      have p1: "?paths1 v \<noteq> None" using pv by simp
      have f1: "fringe_ok g source L ?paths1 ?fringe1"
        by (rule fringe_ok_push [OF Cons.prems(6) ue(1) lu ru])
      have b1: "\<forall>(d, k, x) \<in> set ?fringe1. dv \<le> d"
        using Cons.prems(7) ue(2) by (auto simp: set_heappush)
      have "\<exists>seen' paths' fringe' c'.
           relax dists v dv succs (?seen1, ?paths1, ?fringe1, c + 1) = Inr (seen', paths', fringe', c') \<and>
           fringe_ok g source L paths' fringe' \<and>
           (\<forall>(d, k, x) \<in> set fringe'. dv \<le> d) \<and>
           (\<lambda>a. snd (snd a)) ` set ?fringe1 \<subseteq> (\<lambda>a. snd (snd a)) ` set fringe' \<and>
           (\<forall>W. ?seen1 target = Some W \<and> W \<le> L target
                \<longrightarrow> seen' target = Some W \<and> paths' target = ?paths1 target)"
        by (rule rest [OF p1 f1 b1])
      then obtain seen' paths' fringe' c' where r0:
          "relax dists v dv succs (?seen1, ?paths1, ?fringe1, c + 1) = Inr (seen', paths', fringe', c') \<and>
           fringe_ok g source L paths' fringe' \<and>
           (\<forall>(d, k, x) \<in> set fringe'. dv \<le> d) \<and>
           (\<lambda>a. snd (snd a)) ` set ?fringe1 \<subseteq> (\<lambda>a. snd (snd a)) ` set fringe' \<and>
           (\<forall>W. ?seen1 target = Some W \<and> W \<le> L target
                \<longrightarrow> seen' target = Some W \<and> paths' target = ?paths1 target)"
        by (elim exE) (rule that)
      note r = r0 [THEN conjunct1] r0 [THEN conjunct2, THEN conjunct1]
        r0 [THEN conjunct2, THEN conjunct2, THEN conjunct1]
        r0 [THEN conjunct2, THEN conjunct2, THEN conjunct2, THEN conjunct1]
        r0 [THEN conjunct2, THEN conjunct2, THEN conjunct2, THEN conjunct2]
      have sub: "(\<lambda>a. snd (snd a)) ` set fringe \<subseteq> (\<lambda>a. snd (snd a)) ` set fringe'"
        using r(4) by (auto simp: set_heappush)
      have tp: "\<forall>W. seen target = Some W \<and> W \<le> L target
                \<longrightarrow> seen' target = Some W \<and> paths' target = paths target"
      proof (intro allI impI)
        fix W assume w: "seen target = Some W \<and> W \<le> L target"
        have "u \<noteq> target"
        proof
          assume "u = target"
          with True w have "?vu < W" by simp
          with lu w \<open>u = target\<close> show False by simp
        qed
        then have "?seen1 target = Some W \<and> W \<le> L target" "?paths1 target = paths target"
          using w by simp_all
        with r(5) [rule_format, of W] show "seen' target = Some W \<and> paths' target = paths target"
          by simp
      qed
      show ?thesis
        unfolding eq
        by (intro exI [of _ seen'] exI [of _ paths'] exI [of _ fringe'] exI [of _ c'] conjI
            r(1) r(2) r(3) sub tp)
    qed
  qed
qed


lemma loop_post_mono:
  assumes "loop_post g source target L seen1 paths1 dists1 fringe1 res"
    and "\<And>W P. direct_ok target L seen paths dists fringe W P
              \<Longrightarrow> direct_ok target L seen1 paths1 dists1 fringe1 W P"
  shows "loop_post g source target L seen paths dists fringe res"
  using assms unfolding loop_post_def by blast

lemma dijkstra_loop_ok:
  assumes "\<And>v succs. map_of g v = Some succs \<Longrightarrow> succs_ok g L v succs"
    and "fringe_ok g source L paths fringe"
    and "dists_ok g source dists fringe"
  shows "loop_post g source target L seen paths dists fringe
           (dijkstra_loop g target dists seen paths fringe c)"
  using assms
proof (induction g target dists seen paths fringe c rule: dijkstra_loop.induct)
  case (1 g target dists seen paths c)
  have "\<forall>u. dists u \<noteq> None \<longrightarrow> reachable g source u"
    using "1.prems"(3) by (auto simp: dists_ok_def)
  then show ?case
    by (auto simp: loop_post_def direct_ok_def)
next
  case (2 g target dists seen paths d k v fringe c)
  note G = "2.prems"(1)
  have fo: "fringe_ok g source L paths fringe"
    using "2.prems"(2) by (simp add: fringe_ok_def)
  have hd: "v \<in> fst ` set g" "paths v \<noteq> None" "L v \<le> d" "reachable g source v"
    using "2.prems"(2) by (simp_all add: fringe_ok_def)
  have tl: "\<forall>(d', k', x) \<in> set fringe. d \<le> d'"
    using "2.prems"(2) by (auto simp: fringe_ok_def)
  have db: "\<And>u d'. dists u = Some d' \<Longrightarrow> d' \<le> d"
    using "2.prems"(3) by (auto simp: dists_ok_def)
  have dr: "\<And>u d'. dists u = Some d' \<Longrightarrow> reachable g source u"
    using "2.prems"(3) by (auto simp: dists_ok_def)
  have dt: "dists_ok g source dists fringe"
    using "2.prems"(3) by (auto simp: dists_ok_def)
  show ?case
  proof (cases "dists v \<noteq> None")
    case True
    have p: "loop_post g source target L seen paths dists fringe
               (dijkstra_loop g target dists seen paths fringe c)"
      by (rule "2.IH"(1) [OF True G fo dt])
    have eq: "dijkstra_loop g target dists seen paths ((d, k, v) # fringe) c
              = dijkstra_loop g target dists seen paths fringe c"
      using True by simp
    show ?thesis
      unfolding eq
    proof (rule loop_post_mono [OF p])
      fix W P assume "direct_ok target L seen paths dists ((d, k, v) # fringe) W P"
      then show "direct_ok target L seen paths dists fringe W P"
        using True by (auto simp: direct_ok_def)
    qed
  next
    case False
    then have nd: "dists v = None" by simp
    show ?thesis
    proof (cases "v = target")
      case True
      have eq: "dijkstra_loop g target dists seen paths ((d, k, v) # fringe) c
                = Inr (dists(v \<mapsto> d), paths)"
        using nd True by simp
      have "\<forall>u. (dists(v \<mapsto> d)) u \<noteq> None \<longrightarrow> reachable g source u"
        using dr hd(4) by auto
      then show ?thesis
        unfolding eq by (auto simp: loop_post_def direct_ok_def True)
    next
      case vt: False
      obtain succs where mg: "map_of g v = Some succs"
        using hd(1) by (cases "map_of g v") (auto simp: map_of_eq_None_iff)
      have so: "succs_ok g L v succs" by (rule G [OF mg])
      have db1: "\<And>u d'. (dists(v \<mapsto> d)) u = Some d' \<Longrightarrow> d' \<le> d"
        using db by (auto split: if_splits)
      have "\<exists>seen' paths' fringe' c'.
           relax (dists(v \<mapsto> d)) v d succs (seen, paths, fringe, c)
             = Inr (seen', paths', fringe', c') \<and>
           fringe_ok g source L paths' fringe' \<and>
           (\<forall>(d', k, x) \<in> set fringe'. d \<le> d') \<and>
           (\<lambda>a. snd (snd a)) ` set fringe \<subseteq> (\<lambda>a. snd (snd a)) ` set fringe' \<and>
           (\<forall>W. seen target = Some W \<and> W \<le> L target
                \<longrightarrow> seen' target = Some W \<and> paths' target = paths target)"
        by (rule relax_ok [OF so db1 hd(3) hd(4) hd(2) fo tl])
      then obtain seen' paths' fringe' c' where r0:
          "relax (dists(v \<mapsto> d)) v d succs (seen, paths, fringe, c)
             = Inr (seen', paths', fringe', c') \<and>
           fringe_ok g source L paths' fringe' \<and>
           (\<forall>(d', k, x) \<in> set fringe'. d \<le> d') \<and>
           (\<lambda>a. snd (snd a)) ` set fringe \<subseteq> (\<lambda>a. snd (snd a)) ` set fringe' \<and>
           (\<forall>W. seen target = Some W \<and> W \<le> L target
                \<longrightarrow> seen' target = Some W \<and> paths' target = paths target)"
        by (elim exE) (rule that)
      note r = r0 [THEN conjunct1] r0 [THEN conjunct2, THEN conjunct1]
        r0 [THEN conjunct2, THEN conjunct2, THEN conjunct1]
        r0 [THEN conjunct2, THEN conjunct2, THEN conjunct2, THEN conjunct1]
        r0 [THEN conjunct2, THEN conjunct2, THEN conjunct2, THEN conjunct2]
      have dt1: "dists_ok g source (dists(v \<mapsto> d)) fringe'"
        unfolding dists_ok_def
      proof (intro allI impI)
        fix u d' assume h: "(dists(v \<mapsto> d)) u = Some d'"
        have "reachable g source u" using h dr hd(4) by (auto split: if_splits)
        moreover have "\<forall>(d'', k, x) \<in> set fringe'. d' \<le> d''"
          using db1 [OF h] r(3) by fastforce
        ultimately show "reachable g source u \<and> (\<forall>(d'', k, x) \<in> set fringe'. d' \<le> d'')" by simp
      qed
      have p: "loop_post g source target L seen' paths' (dists(v \<mapsto> d)) fringe'
               (dijkstra_loop g target (dists(v \<mapsto> d)) seen' paths' fringe' c')"
        by (rule "2.IH"(2) [OF False vt mg r(1) refl refl refl G r(2) dt1])
      have eq: "dijkstra_loop g target dists seen paths ((d, k, v) # fringe) c
                = dijkstra_loop g target (dists(v \<mapsto> d)) seen' paths' fringe' c'"
        using nd vt by (simp add: mg r(1))
      show ?thesis
        unfolding eq
      proof (rule loop_post_mono [OF p])
        fix W P assume h: "direct_ok target L seen paths dists ((d, k, v) # fringe) W P"
        then have w: "seen target = Some W \<and> W \<le> L target" and pp: "paths target = Some P"
          by (simp_all add: direct_ok_def)
        have s': "seen' target = Some W" "paths' target = Some P"
          using r(5) [rule_format, OF w] pp by simp_all
        have "dists target \<noteq> None \<or> target \<in> (\<lambda>a. snd (snd a)) ` set fringe"
          using h vt by (auto simp: direct_ok_def)
        then have "(dists(v \<mapsto> d)) target \<noteq> None \<or> target \<in> (\<lambda>a. snd (snd a)) ` set fringe'"
          using r(4) by auto
        then show "direct_ok target L seen' paths' (dists(v \<mapsto> d)) fringe' W P"
          using s' w by (simp add: direct_ok_def)
      qed
    qed
  qed
qed

declare dijkstra_loop.simps [simp del]

lemma in_edges: "(v, succs) \<in> set g \<Longrightarrow> (u, e) \<in> set succs \<Longrightarrow> (v, u) \<in> set (edges g)"
  by (force simp: edges_def)

lemma edges_target_node:
  assumes "graph_ok g" "(v, u) \<in> set (edges g)"
  shows "u \<in> set (nodes g)"
  using assms by (fastforce simp: graph_ok_def edges_def nodes_def)

lemma succs_ok_zero:
  assumes "graph_ok g" "map_of g v = Some succs"
  shows "succs_ok g (\<lambda>n. 0) v succs"
proof -
  have m: "(v, succs) \<in> set g" by (rule map_of_SomeD [OF assms(2)])
  show ?thesis
    unfolding succs_ok_def
  proof (intro ballI)
    fix a assume a: "a \<in> set succs"
    obtain u e where ue: "a = (u, e)" by (cases a)
    have "u \<in> fst ` set g \<and> 0 \<le> weight e"
      using assms(1) m a unfolding graph_ok_def ue by fastforce
    moreover have "(v, u) \<in> set (edges g)"
      using in_edges [OF m] a by (simp add: ue)
    ultimately show "case a of (u, e) \<Rightarrow>
        u \<in> fst ` set g \<and> 0 \<le> weight e \<and> 0 \<le> 0 + weight e \<and> (v, u) \<in> set (edges g)"
      by (simp add: ue)
  qed
qed

lemma initial_fringe_ok:
  assumes "source \<in> set (nodes g)" "L source \<le> 0"
  shows "fringe_ok g source L [source \<mapsto> [source]] [(0, 0, source)]"
  using assms by (simp add: fringe_ok_def nodes_def reachable_def)

lemma dijkstra_unreachable:
  assumes "graph_ok g" "source \<in> set (nodes g)" "\<not> reachable g source target"
  shows "dijkstra_path g source target = Inl NetworkXNoPath"
proof -
  have ts: "target \<noteq> source"
    using assms(3) by (auto simp: reachable_def)
  have f: "fringe_ok g source (\<lambda>n. 0) [source \<mapsto> [source]] [(0, 0, source)]"
    by (rule initial_fringe_ok [OF assms(2)]) simp
  have d: "dists_ok g source Map.empty [(0, 0, source)]"
    by (simp add: dists_ok_def)
  have "loop_post g source target (\<lambda>n. 0) [source \<mapsto> 0] [source \<mapsto> [source]] Map.empty
          [(0, 0, source)]
          (dijkstra_loop g target Map.empty [source \<mapsto> 0] [source \<mapsto> [source]] [(0, 0, source)] 1)"
    by (rule dijkstra_loop_ok [OF succs_ok_zero [OF assms(1)] f d])
  then obtain dists' paths' where r:
      "dijkstra_loop g target Map.empty [source \<mapsto> 0] [source \<mapsto> [source]] [(0, 0, source)] 1
       = Inr (dists', paths')"
      "\<forall>u. dists' u \<noteq> None \<longrightarrow> reachable g source u"
    unfolding loop_post_def by blast
  have "dists' target = None"
    using r(2) assms(3) by auto
  then show ?thesis
    using assms(2) ts r(1) by (simp add: dijkstra_path_def)
qed

lemma missing_target_unreachable:
  assumes "graph_ok g" "source \<in> set (nodes g)" "target \<notin> set (nodes g)"
  shows "\<not> reachable g source target"
proof
  assume "reachable g source target"
  then have "(source, target) \<in> (set (edges g))\<^sup>*" by (simp add: reachable_def)
  then show False
  proof (cases rule: rtranclE)
    case base
    with assms(2,3) show False by simp
  next
    case (step v)
    then have "target \<in> set (nodes g)" using edges_target_node [OF assms(1)] by blast
    with assms(3) show False by simp
  qed
qed


lemma set_dict_set: "set (dict_set k v d) \<subseteq> insert (k, v) (set d)"
  by (induction d) (auto split: if_splits)

lemma set_add_node: "set (add_node u g) \<subseteq> insert (u, []) (set g)"
  by (auto simp: add_node_def)

lemma keys_add_node: "fst ` set (add_node u g) = insert u (fst ` set g)"
  using nodes_add_node [of u g] by (simp add: nodes_def)

lemma graph_ok_add_node: "graph_ok g \<Longrightarrow> graph_ok (add_node u g)"
  unfolding graph_ok_def add_node_def by (auto 0 3)

lemma graph_ok_successors:
  assumes "graph_ok g"
  shows "distinct (map fst (successors g u))"
    and "\<forall>(w, e) \<in> set (successors g u). w \<in> fst ` set g \<and> 0 \<le> weight e"
proof -
  show "distinct (map fst (successors g u))"
  proof (cases "map_of g u")
    case None
    then show ?thesis by (simp add: successors_def)
  next
    case (Some s)
    then have "(u, s) \<in> set g" by (rule map_of_SomeD)
    with assms show ?thesis by (auto simp: successors_def Some graph_ok_def)
  qed
  show "\<forall>(w, e) \<in> set (successors g u). w \<in> fst ` set g \<and> 0 \<le> weight e"
  proof (cases "map_of g u")
    case None
    then show ?thesis by (simp add: successors_def)
  next
    case (Some s)
    then have "(u, s) \<in> set g" by (rule map_of_SomeD)
    with assms show ?thesis by (fastforce simp: successors_def Some graph_ok_def)
  qed
qed

lemma graph_ok_add_edge:
  assumes "graph_ok g" "0 \<le> weight dd"
  shows "graph_ok (add_edge (u, v, dd) g)"
proof -
  let ?g = "add_node v (add_node u g)"
  let ?s0 = "successors ?g u"
  let ?s1 = "dict_set v dd ?s0"
  have ok: "graph_ok ?g" by (intro graph_ok_add_node assms(1))
  have keys: "u \<in> fst ` set ?g" "v \<in> fst ` set ?g" by (simp_all add: keys_add_node)
  have d1: "distinct (map fst ?s1)"
    by (rule distinct_dict_set [OF graph_ok_successors(1) [OF ok]])
  have e1: "\<forall>(w, e) \<in> set ?s1. w \<in> fst ` set ?g \<and> 0 \<le> weight e"
    using graph_ok_successors(2) [OF ok, of u] set_dict_set [of v dd ?s0] keys(2) assms(2)
    by fastforce
  have k: "fst ` set (dict_set u ?s1 ?g) = fst ` set ?g"
    using keys(1) by (auto simp: keys_dict_set)
  have top: "distinct (map fst (dict_set u ?s1 ?g))"
    using ok by (intro distinct_dict_set) (simp add: graph_ok_def)
  have ent: "\<forall>(w, s) \<in> set (dict_set u ?s1 ?g).
        distinct (map fst s) \<and> (\<forall>(x, e) \<in> set s. x \<in> fst ` set ?g \<and> 0 \<le> weight e)"
  proof (intro ballI)
    fix a assume a: "a \<in> set (dict_set u ?s1 ?g)"
    obtain w s where ws: "a = (w, s)" by (cases a)
    have "a = (u, ?s1) \<or> a \<in> set ?g" using a set_dict_set [of u ?s1 ?g] by auto
    then show "case a of (w, s) \<Rightarrow>
        distinct (map fst s) \<and> (\<forall>(x, e) \<in> set s. x \<in> fst ` set ?g \<and> 0 \<le> weight e)"
    proof
      assume "a = (u, ?s1)"
      then show ?thesis using d1 e1 by simp
    next
      assume "a \<in> set ?g"
      then show ?thesis using ok unfolding graph_ok_def by blast
    qed
  qed
  show ?thesis
    unfolding add_edge_def graph_ok_def Let_def prod.case k
    using top ent by simp
qed

lemma graph_ok_fold:
  assumes "graph_ok g" "\<forall>(u, v, dd) \<in> set es. 0 \<le> weight dd"
  shows "graph_ok (fold add_edge es g)"
  using assms
proof (induction es arbitrary: g)
  case Nil
  then show ?case by simp
next
  case (Cons a es)
  obtain u v dd where a: "a = (u, v, dd)" by (cases a)
  have "graph_ok (add_edge a g)"
    unfolding a by (rule graph_ok_add_edge [OF Cons.prems(1)]) (use Cons.prems(2) a in simp)
  then show ?case using Cons.IH Cons.prems(2) by simp
qed

lemma weight_nonneg: "0 \<le> weight (edge_attributes geod_inv ts p f q)"
  by (cases p; cases f; cases q) (simp add: weight_formula split: prod.splits)



lemma get_neighbors_weights:
  assumes "get_neighbors geod_inv self y x dims = Inr ns"
  shows "\<forall>(u, v, dd) \<in> set ns. 0 \<le> weight dd"
  using assms
  by (auto simp: get_neighbors_def Let_def weight_nonneg split: sum.splits if_splits)

lemma transform_cells_graph_ok:
  assumes "graph_ok g0"
    and "snd (transform_cells stdout_write geod_inv self dims cs idx out g0) = Inr g"
  shows "graph_ok g"
  using assms
proof (induction cs arbitrary: idx out g0)
  case Nil
  then show ?case by simp
next
  case (Cons c cs)
  obtain y x where c: "c = (y, x)" by (cases c)
  let ?idx = "if verbose self then idx + 1 else idx"
  let ?pr = "if verbose self then print_progress_bar stdout_write ?idx (fst dims * snd dims)
             else Inr []"
  obtain line where line: "?pr = Inr line"
    using Cons.prems(2) by (cases ?pr) (simp_all add: c Let_def)
  obtain ns where ns: "get_neighbors geod_inv self y x dims = Inr ns"
    using Cons.prems(2) line
    by (cases "get_neighbors geod_inv self y x dims") (simp_all add: c Let_def)
  have g1: "graph_ok (add_edges_from ns g0)"
    unfolding add_edges_from_def
    by (rule graph_ok_fold [OF Cons.prems(1) get_neighbors_weights [OF ns]])
  have "snd (transform_cells stdout_write geod_inv self dims cs ?idx (out @ line)
               (add_edges_from ns g0)) = Inr g"
    using Cons.prems(2) line ns by (simp add: c Let_def)
  then show ?case by (rule Cons.IH [OF g1])
qed

lemma transform_map_graph_ok:
  assumes "snd (transform_map stdout_write geod_inv self) = Inr g"
  shows "graph_ok g"
proof (rule transform_cells_graph_ok)
  show "graph_ok []" by (simp add: graph_ok_def)
  show "snd (transform_cells stdout_write geod_inv self
               (int (shape0 (currents self)), int (shape1 (currents self)))
               (grid_cells (shape0 (currents self)) (shape1 (currents self))) 0 [] []) = Inr g"
    using assms by (simp add: transform_map_def Let_def)
qed

text \<open>
  Claim C8, as the code has it. The graph of the engine is one that \<open>_transform_map\<close>
  returned, and both positions resolve to cells that have an identifier. Then a
  source that is no node of the graph ends the query in \<open>NodeNotFound\<close>; from a source
  that is a node, a destination that is no node of the graph, or that no sequence of
  edges leads to, ends it in \<open>NetworkXNoPath\<close>. Either exception is what the query
  returns to its caller.
\<close>

theorem no_path_query:
  assumes "snd (transform_map stdout_write geod_inv builder) = Inr (nav_graph self)"
    and "geo_idx self geo_pos = Inr idx_pos" and "geo_idx self geo_dest = Inr idx_dest"
    and "encode_node_id idx_pos = Inr src_node" and "encode_node_id idx_dest = Inr dest_node"
  shows "(src_node \<notin> set (nodes (nav_graph self))
            \<longrightarrow> get_next_azimuth self geo_pos geo_dest = Inl NodeNotFound) \<and>
         (src_node \<in> set (nodes (nav_graph self)) \<and> dest_node \<notin> set (nodes (nav_graph self))
            \<longrightarrow> get_next_azimuth self geo_pos geo_dest = Inl NetworkXNoPath) \<and>
         (src_node \<in> set (nodes (nav_graph self)) \<and> \<not> reachable (nav_graph self) src_node dest_node
            \<longrightarrow> get_next_azimuth self geo_pos geo_dest = Inl NetworkXNoPath)"
proof -
  have ok: "graph_ok (nav_graph self)" by (rule transform_map_graph_ok [OF assms(1)])
  have q: "get_next_azimuth self geo_pos geo_dest = Inl e"
    if "dijkstra_path (nav_graph self) src_node dest_node = Inl e" for e
    using that by (simp add: get_next_azimuth_def assms(2-5))
  have 1: "src_node \<notin> set (nodes (nav_graph self))
             \<longrightarrow> get_next_azimuth self geo_pos geo_dest = Inl NodeNotFound"
  proof
    assume "src_node \<notin> set (nodes (nav_graph self))"
    then have "dijkstra_path (nav_graph self) src_node dest_node = Inl NodeNotFound"
      by (simp add: dijkstra_path_def)
    then show "get_next_azimuth self geo_pos geo_dest = Inl NodeNotFound" by (rule q)
  qed
  have 3: "src_node \<in> set (nodes (nav_graph self)) \<and> \<not> reachable (nav_graph self) src_node dest_node
             \<longrightarrow> get_next_azimuth self geo_pos geo_dest = Inl NetworkXNoPath"
  proof
    assume h: "src_node \<in> set (nodes (nav_graph self)) \<and>
               \<not> reachable (nav_graph self) src_node dest_node"
    have "dijkstra_path (nav_graph self) src_node dest_node = Inl NetworkXNoPath"
      by (rule dijkstra_unreachable [OF ok h [THEN conjunct1] h [THEN conjunct2]])
    then show "get_next_azimuth self geo_pos geo_dest = Inl NetworkXNoPath" by (rule q)
  qed
  have 2: "src_node \<in> set (nodes (nav_graph self)) \<and> dest_node \<notin> set (nodes (nav_graph self))
             \<longrightarrow> get_next_azimuth self geo_pos geo_dest = Inl NetworkXNoPath"
  proof
    assume h: "src_node \<in> set (nodes (nav_graph self)) \<and> dest_node \<notin> set (nodes (nav_graph self))"
    have "\<not> reachable (nav_graph self) src_node dest_node"
      by (rule missing_target_unreachable [OF ok h [THEN conjunct1] h [THEN conjunct2]])
    with h 3 show "get_next_azimuth self geo_pos geo_dest = Inl NetworkXNoPath" by simp
  qed
  show ?thesis by (intro conjI 1 2 3)
qed

lemma example_wide_simps:
  "latlons example_wide_engine = example_grid 2 2"
  "currents example_wide_engine = example_flow 2 1 0"
  "dims_of example_wide_engine = (2, 1)"
  "latlons example_wide_navigator = example_grid 2 2"
  "nav_graph example_wide_navigator = built_graph example_geod example_wide_engine"
  "kdtree example_wide_navigator = [(0, 0), (0, 1), (1, 0), (1, 1)]"
  by (simp_all add: example_wide_engine_def example_wide_navigator_def dims_of_def example_flow_def)

lemma example_wide_built:
  "snd (transform_map stdout_write example_geod example_wide_engine)
   = Inr (nav_graph example_wide_navigator)"
  unfolding example_wide_simps built_graph_def
  by (rule transform_map_ok)
     (simp_all add: buildable_def example_wide_engine_def example_grid_def example_flow_def)

lemma example_wide_nodes:
  "node_of (0, 0) \<in> set (nodes (nav_graph example_wide_navigator))"
  "node_of (0, 1) \<notin> set (nodes (nav_graph example_wide_navigator))"
proof -
  have n: "set (nodes (nav_graph example_wide_navigator))
           = node_of ` {c. in_grid (dims_of example_wide_engine) c}"
    unfolding example_wide_simps(5)
    by (rule built_nodes) (simp add: example_wide_engine_def example_flow_def)
  show "node_of (0, 0) \<in> set (nodes (nav_graph example_wide_navigator))"
    unfolding n by (rule imageI) (simp add: example_wide_simps in_grid_def)
  show "node_of (0, 1) \<notin> set (nodes (nav_graph example_wide_navigator))"
    unfolding n
  proof
    assume "node_of (0, 1) \<in> node_of ` {c. in_grid (dims_of example_wide_engine) c}"
    then obtain c where c: "in_grid (2, 1) c" "node_of (0, 1) = node_of c"
      by (auto simp: example_wide_simps)
    have "(0, 1) = c"
      by (rule node_of_inj [OF _ _ _ _ _ _ _ _ c(2)]) (use c(1) in \<open>simp_all add: in_grid_def\<close>)
    with c(1) show False by (auto simp: in_grid_def)
  qed
qed

lemma example_wide_geo_idx:
  "geo_idx example_wide_navigator (0, 0) = Inr (0, 0)"
  "geo_idx example_wide_navigator (0, 1) = Inr (0, 1)"
  by (simp_all add: geo_idx_def example_wide_simps query_def sqdist_def unravel_index_def
      example_grid_def)

lemma example_wide_encode:
  "encode_node_id (0, 0) = Inr (node_of (0, 0))"
  "encode_node_id (0, 1) = Inr (node_of (0, 1))"
  by (rule encode_node_of; simp)+

theorem no_path_query_witness:
  "get_next_azimuth example_wide_navigator (0, 0) (0, 1) = Inl NetworkXNoPath"
  using no_path_query [OF example_wide_built [of utf8_stdout] example_wide_geo_idx(1)
      example_wide_geo_idx(2) example_wide_encode(1) example_wide_encode(2)]
    example_wide_nodes
  by simp

lemma example_wide_init:
  "init stdout_write example_geod 1 (example_grid 2 2) (example_flow 2 1 0) False
   = ([], Inr example_wide_navigator)"
proof -
  let ?s = "\<lparr>latlons = example_grid 2 2, currents = example_flow 2 1 0, timestep = 1,
             verbose = False, nav_graph = [], kdtree = []\<rparr>"
  have s: "?s = example_wide_engine" by (simp add: example_wide_engine_def)
  have q: "example_wide_engine = example_wide_engine\<lparr>verbose := False\<rparr>"
    by (simp add: example_wide_engine_def)
  have 2: "fst (transform_map stdout_write example_geod example_wide_engine) = []"
    using transform_map_quiet [where stdout_write = stdout_write and geod_inv = example_geod
        and self = example_wide_engine] q by simp
  have tm: "transform_map stdout_write example_geod example_wide_engine
            = ([], Inr (built_graph example_geod example_wide_engine))"
    using example_wide_built [of stdout_write] 2 by (simp add: prod_eq_iff example_wide_simps)
  have u2: "[0..<2] = [0, 1]" by (simp add: upt_rec)
  have bt: "build_tree (example_wide_engine\<lparr>nav_graph := built_graph example_geod example_wide_engine\<rparr>)
            = Inr [(0, 0), (0, 1), (1, 0), (1, 1)]"
    by (simp add: build_tree_def example_wide_engine_def example_grid_def u2)
  show ?thesis
    unfolding init_def Let_def s tm
    by (simp add: bt example_wide_navigator_def)
qed

text \<open>
  The engine that \<open>__init__\<close> returns for a coordinate grid of two rows and two
  columns and a flow field of two rows and one column has the cells \<open>(0, 0)\<close> and
  \<open>(1, 0)\<close> as nodes of its graph, and its tree resolves the position \<open>(0, 1)\<close> to the
  cell \<open>(0, 1)\<close>. A query from there has a source that is no node of the graph, and it
  ends in \<open>NodeNotFound\<close>, which is another exception than \<open>NetworkXNoPath\<close>.
\<close>

theorem missing_source_counterexample:
  "init utf8_stdout example_geod 1 (example_grid 2 2) (example_flow 2 1 0) False
     = ([], Inr example_wide_navigator) \<and>
   geo_idx example_wide_navigator (0, 1) = Inr (0, 1) \<and>
   encode_node_id (0, 1) = Inr (node_of (0, 1)) \<and>
   node_of (0, 1) \<notin> set (nodes (nav_graph example_wide_navigator)) \<and>
   get_next_azimuth example_wide_navigator (0, 1) (0, 0) = Inl NodeNotFound"
proof -
  have "get_next_azimuth example_wide_navigator (0, 1) (0, 0) = Inl NodeNotFound"
    using example_wide_nodes(2)
    by (simp add: get_next_azimuth_def example_wide_geo_idx example_wide_encode dijkstra_path_def)
  then show ?thesis
    by (intro conjI example_wide_init example_wide_geo_idx(2) example_wide_encode(2)
        example_wide_nodes(2))
qed
subsection \<open>The azimuth of an edge and the flow at its source\<close>



















subsection \<open>The direct step on a field without flow\<close>






















end
